theory Spec2Isabelle
  imports Main "HOL-Library.Multiset"
begin

section \<open>Data model of \<open>ics/grammar/parse.py\<close>\<close>

text \<open>
  Python strings are modelled as HOL strings (lists of 8-bit characters). The exceptions
  the module can raise are values of \<open>error\<close>; \<open>ParseError\<close> carries its optional
  message (\<open>ParseError()\<close> has none). \<open>FailedToken\<close> and \<open>FailedParse\<close> are the
  exceptions of the grammar library: \<open>FailedToken\<close>, which \<open>ContentLine.parse\<close>
  catches, and any other failure of a parse, which it does not catch.
\<close>

datatype error =
    ParseError "string option"
  | ValueError string
  | TypeError string
  | IndexError
  | KeyError
  | AttributeError
  | FailedToken
  | FailedParse

text \<open>
  \<open>ContentLine\<close>: the attrs class with fields \<open>name\<close>, \<open>params\<close> and \<open>value\<close>
  (here \<open>val\<close>). \<open>params\<close> is a Python dict, which keeps insertion order: an association
  list with one entry per key.
\<close>

record ContentLine =
  name :: string
  params :: "(string \<times> string list) list"
  val :: string

text \<open>
  The Python values the module handles. \<open>Container\<close> subclasses \<open>list\<close>: it has a name
  and a list of elements, which Python lets be any value; \<open>check_items\<close> is what keeps
  them to content lines and containers.
\<close>

datatype pyval =
    PyNone
  | PyInt int
  | PyStr string
  | PyList "pyval list"
  | Line ContentLine
  | Container string "pyval list"

text \<open>\<open>isinstance(v, (ContentLine, Container))\<close>.\<close>

fun is_item :: "pyval \<Rightarrow> bool" where
  "is_item (Line l) = True"
| "is_item (Container n xs) = True"
| "is_item v = False"

text \<open>
  Modelled from the spec: \<open>check_is_instance\<close> of \<open>ics.utils\<close>, which is not among the
  sources. It raises \<open>TypeError\<close> when the value is not an instance of the given classes
  (spec: "every element inserted must be a Token or Container", "appending a plain
  string to a container fails"). The argument \<open>what\<close> is the label used in the message.
\<close>

definition check_is_instance :: "string \<Rightarrow> pyval \<Rightarrow> error + unit" where
  "check_is_instance what v =
     (if is_item v then Inr () else Inl (TypeError what))"

text \<open>Decimal rendering of an index, for the label \<open>"item %s" % nr\<close>.\<close>

fun digits_of :: "nat \<Rightarrow> string" where
  "digits_of n =
     (if n < 10 then [char_of (48 + n)]
      else digits_of (n div 10) @ [char_of (48 + n mod 10)])"

declare digits_of.simps [simp del]

text \<open>The loop \<open>for nr, item in enumerate(items)\<close> of \<open>check_items\<close>.\<close>

fun check_each :: "nat \<Rightarrow> pyval list \<Rightarrow> error + unit" where
  "check_each nr [] = Inr ()"
| "check_each nr (item # rest) =
     (case check_is_instance (''item '' @ digits_of nr) item of
        Inl e \<Rightarrow> Inl e
      | Inr u \<Rightarrow> check_each (Suc nr) rest)"

definition check_items :: "pyval list \<Rightarrow> error + unit" where
  "check_items items =
     (if length items = 1 then check_is_instance ''item'' (items ! 0)
      else check_each 0 items)"

text \<open>\<open>Container.__init__(self, name, *items)\<close>: check, then build the list.\<close>

definition Container_init :: "string \<Rightarrow> pyval list \<Rightarrow> error + pyval" where
  "Container_init nm items =
     (case check_items items of
        Inl e \<Rightarrow> Inl e
      | Inr u \<Rightarrow> Inr (Container nm items))"

section \<open>The container builder\<close>

text \<open>
  \<open>tokenized_lines\<close> is an iterator shared by all recursive calls. It is modelled as the
  list of what remains to be pulled from it: each element is either a token or the
  exception that the generator behind the iterator raises when asked for that element
  (\<open>tokenize_line\<close> raises lazily). A call returns its result together with the
  remaining stream, so that the caller goes on where the callee stopped.
\<close>

type_synonym token_stream = "(error + ContentLine) list"

text \<open>
  \<open>Container.parse(name, tokenized_lines)\<close>. The local list \<open>items\<close> is the second
  argument of the loop; \<open>Container_parse\<close> starts it empty.
\<close>

function Container_parse_loop ::
  "string \<Rightarrow> pyval list \<Rightarrow> token_stream \<Rightarrow> error + (pyval \<times> token_stream)"
where
  "Container_parse_loop nm items [] =
     (case Container_init nm items of
        Inl e \<Rightarrow> Inl e
      | Inr c \<Rightarrow> Inr (c, []))"
| "Container_parse_loop nm items (Inl e # rest) = Inl e"
| "Container_parse_loop nm items (Inr line # rest) =
     (if name line = ''BEGIN'' then
        (case Container_parse_loop (val line) [] rest of
           Inl e \<Rightarrow> Inl e
         | Inr (c, rest') \<Rightarrow> Container_parse_loop nm (items @ [c]) rest')
      else if name line = ''END'' then
        (if val line \<noteq> nm then
           Inl (ParseError (Some (''Expected END:'' @ nm @ '', got END:'' @ val line)))
         else
           (case Container_init nm items of
              Inl e \<Rightarrow> Inl e
            | Inr c \<Rightarrow> Inr (c, rest)))
      else Container_parse_loop nm (items @ [Line line]) rest)"
  by pat_completeness auto

lemma Container_parse_loop_length_dom:
  "Container_parse_loop_dom (nm, items, ts) \<Longrightarrow>
   Container_parse_loop nm items ts = Inr (c, rest) \<Longrightarrow> length rest \<le> length ts"
proof (induction nm items ts arbitrary: c rest rule: Container_parse_loop.pinduct)
  case (1 nm items)
  then show ?case
    by (auto simp: Container_parse_loop.psimps split: sum.splits)
next
  case (2 nm items e rest)
  then show ?case
    by (simp add: Container_parse_loop.psimps)
next
  case (3 nm items line ts)
  show ?case
  proof (cases "name line = ''BEGIN''")
    case True
    from "3.prems" "3.hyps" True obtain c' r' where
      inner: "Container_parse_loop (val line) [] ts = Inr (c', r')" and
      outer: "Container_parse_loop nm (items @ [c']) r' = Inr (c, rest)"
      by (auto simp: Container_parse_loop.psimps split: sum.splits)
    from "3.IH"(1) [OF True inner] have "length r' \<le> length ts" .
    moreover from "3.IH"(2) [OF True inner refl outer] have "length rest \<le> length r'" .
    ultimately show ?thesis by simp
  next
    case False
    note notbegin = this
    show ?thesis
    proof (cases "name line = ''END''")
      case True
      with "3.prems" "3.hyps" notbegin show ?thesis
        by (auto simp: Container_parse_loop.psimps split: sum.splits if_splits)
    next
      case False
      with "3.prems" "3.hyps" notbegin have
        "Container_parse_loop nm (items @ [Line line]) ts = Inr (c, rest)"
        by (simp add: Container_parse_loop.psimps)
      from "3.IH"(3) [OF notbegin False this] show ?thesis by simp
    qed
  qed
qed

termination Container_parse_loop
proof (relation "measure (\<lambda>(nm, items, ts). length ts)")
  show "wf (measure (\<lambda>(nm, items, ts). length ts))" by simp
next
  fix nm items line rest
  show "((val line, [], rest), (nm, items, Inr line # rest))
          \<in> measure (\<lambda>(nm, items, ts). length ts)"
    by simp
next
  fix nm :: string and items :: "pyval list" and line :: ContentLine
    and rest :: token_stream and x2 x y
  assume "Container_parse_loop (val line) [] rest = Inr x2" "(x, y) = x2"
    "Container_parse_loop_dom (val line, [], rest)"
  then have "length y \<le> length rest"
    using Container_parse_loop_length_dom [of "val line" "[]" rest x y] by simp
  then show "((nm, items @ [x], y), (nm, items, Inr line # rest))
          \<in> measure (\<lambda>(nm, items, ts). length ts)"
    by simp
next
  fix nm items line rest
  show "((nm, items @ [Line line], rest), (nm, items, Inr line # rest))
          \<in> measure (\<lambda>(nm, items, ts). length ts)"
    by simp
qed


lemma Container_parse_loop_length:
  "Container_parse_loop nm items ts = Inr (c, rest) \<Longrightarrow> length rest \<le> length ts"
proof (induction nm items ts arbitrary: c rest rule: Container_parse_loop.induct)
  case (1 nm items)
  then show ?case by (auto split: sum.splits)
next
  case (2 nm items e rest)
  then show ?case by simp
next
  case (3 nm items line ts)
  show ?case
  proof (cases "name line = ''BEGIN''")
    case True
    from "3.prems" True obtain c' r' where
      inner: "Container_parse_loop (val line) [] ts = Inr (c', r')" and
      outer: "Container_parse_loop nm (items @ [c']) r' = Inr (c, rest)"
      by (auto split: sum.splits)
    from "3.IH"(1) [OF True inner] have "length r' \<le> length ts" .
    moreover from "3.IH"(2) [OF True inner refl outer] have "length rest \<le> length r'" .
    ultimately show ?thesis by simp
  next
    case False
    note notbegin = this
    show ?thesis
    proof (cases "name line = ''END''")
      case True
      with "3.prems" notbegin show ?thesis
        by (auto split: sum.splits if_splits)
    next
      case False
      with "3.prems" notbegin have
        "Container_parse_loop nm (items @ [Line line]) ts = Inr (c, rest)"
        by simp
      from "3.IH"(3) [OF notbegin False this] show ?thesis by simp
    qed
  qed
qed

definition Container_parse :: "string \<Rightarrow> token_stream \<Rightarrow> error + (pyval \<times> token_stream)" where
  "Container_parse nm tokenized_lines = Container_parse_loop nm [] tokenized_lines"

text \<open>
  The module-level \<open>parse(tokenized_lines)\<close>; \<open>res\<close> is the first argument of the
  loop. At top level a token named \<open>END\<close> is not special: it is appended like any other.
\<close>

function parse_loop :: "pyval list \<Rightarrow> token_stream \<Rightarrow> error + pyval list" where
  "parse_loop res [] = Inr res"
| "parse_loop res (Inl e # rest) = Inl e"
| "parse_loop res (Inr line # rest) =
     (if name line = ''BEGIN'' then
        (case Container_parse (val line) rest of
           Inl e \<Rightarrow> Inl e
         | Inr (c, rest') \<Rightarrow> parse_loop (res @ [c]) rest')
      else parse_loop (res @ [Line line]) rest)"
  by pat_completeness auto

termination parse_loop
proof (relation "measure (\<lambda>(res, ts). length ts)")
  show "wf (measure (\<lambda>(res, ts). length ts))" by simp
next
  fix res :: "pyval list" and line :: ContentLine and rest :: token_stream and x2 x y
  assume "Container_parse (val line) rest = Inr x2" "(x, y) = x2"
  then have "length y \<le> length rest"
    using Container_parse_loop_length [of "val line" "[]" rest x y]
    by (simp add: Container_parse_def)
  then show "((res @ [x], y), (res, Inr line # rest)) \<in> measure (\<lambda>(res, ts). length ts)"
    by simp
next
  fix res :: "pyval list" and line :: ContentLine and rest :: token_stream
  show "((res @ [Line line], rest), (res, Inr line # rest))
          \<in> measure (\<lambda>(res, ts). length ts)"
    by simp
qed

definition parse :: "token_stream \<Rightarrow> error + pyval list" where
  "parse tokenized_lines = parse_loop [] tokenized_lines"


section \<open>Content lines\<close>

text \<open>
  \<open>str.upper\<close> on the 8-bit characters, the converter of the field \<open>name\<close>: the
  letters \<open>a\<close> to \<open>z\<close> and the accented letters \<open>0xE0\<close> to \<open>0xFE\<close> (but the division
  sign \<open>0xF7\<close>) move down by 32, and the sharp s \<open>0xDF\<close> becomes \<open>SS\<close>. The upper-case
  forms of \<open>0xB5\<close> and \<open>0xFF\<close> lie beyond the 8-bit characters; the model leaves these
  two as they are.
\<close>

definition upper_char :: "char \<Rightarrow> string" where
  "upper_char c =
     (if (97 \<le> (of_char c :: nat) \<and> (of_char c :: nat) \<le> 122)
         \<or> (224 \<le> (of_char c :: nat) \<and> (of_char c :: nat) \<le> 246)
         \<or> (248 \<le> (of_char c :: nat) \<and> (of_char c :: nat) \<le> 254)
      then [char_of ((of_char c :: nat) - 32)]
      else if (of_char c :: nat) = 223 then ''SS''
      else [c])"

definition upper :: "string \<Rightarrow> string" where
  "upper s = concat (map upper_char s)"

text \<open>The constructor \<open>ContentLine(name, params, value)\<close> generated by attrs.\<close>

definition ContentLine_init ::
  "string \<Rightarrow> (string \<times> string list) list \<Rightarrow> string \<Rightarrow> ContentLine" where
  "ContentLine_init nm ps v = \<lparr>name = upper nm, params = ps, val = v\<rparr>"

text \<open>\<open>sep.join(xs)\<close>.\<close>

fun join :: "string \<Rightarrow> string list \<Rightarrow> string" where
  "join sep [] = []"
| "join sep [x] = x"
| "join sep (x # y # ys) = x @ sep @ join sep (y # ys)"

text \<open>
  \<open>ContentLine.__str__\<close>: the loop over \<open>self.params\<close> appends one
  \<open>;NAME=v1,v2\<close> group per parameter, in the order of the dict.
\<close>

fun params_str :: "(string \<times> string list) list \<Rightarrow> string" where
  "params_str [] = []"
| "params_str ((pname, vs) # rest) = '';'' @ pname @ ''='' @ join '','' vs @ params_str rest"

definition ContentLine_str :: "ContentLine \<Rightarrow> string" where
  "ContentLine_str l = name l @ params_str (params l) @ '':'' @ val l"

text \<open>
  The syntax tree \<open>GRAMMAR.parse\<close> returns: the characters of the name, one entry per
  parameter (its name and its values), the characters of the value.
\<close>

record param_ast =
  p_name :: string
  p_values :: "string list"

record ast =
  a_name :: string
  a_params :: "param_ast list"
  a_value :: string

text \<open>\<open>d[k] = v\<close> on a dict: a key already present keeps its place.\<close>

fun dict_set :: "('k \<times> 'v) list \<Rightarrow> 'k \<Rightarrow> 'v \<Rightarrow> ('k \<times> 'v) list" where
  "dict_set [] k v = [(k, v)]"
| "dict_set ((k', v') # rest) k v =
     (if k' = k then (k, v) # rest else (k', v') # dict_set rest k v)"

text \<open>\<open>ContentLine.interpret_ast\<close>; the loop over the parameters fills the dict.\<close>

fun interpret_params ::
  "(string \<times> string list) list \<Rightarrow> param_ast list \<Rightarrow> (string \<times> string list) list" where
  "interpret_params ps [] = ps"
| "interpret_params ps (param_ast # rest) =
     interpret_params (dict_set ps (p_name param_ast) (p_values param_ast)) rest"

definition interpret_ast :: "ast \<Rightarrow> ContentLine" where
  "interpret_ast a =
     ContentLine_init (a_name a) (interpret_params [] (a_params a)) (a_value a)"

text \<open>
  \<open>ContentLine.parse(line)\<close>. \<open>GRAMMAR\<close> is compiled from \<open>contentline.ebnf\<close>, which is
  not among the sources: the function takes it as its first argument, the parser from a
  line to a syntax tree or to the exception it raises. Only \<open>FailedToken\<close> is caught
  and turned into \<open>ParseError()\<close>; any other exception of the parser goes through.
\<close>

definition ContentLine_parse :: "(string \<Rightarrow> error + ast) \<Rightarrow> string \<Rightarrow> error + ContentLine" where
  "ContentLine_parse GRAMMAR line =
     (if CHR 0x0A \<in> set line \<or> CHR 0x0D \<in> set line
      then Inl (ValueError ''ContentLine can only contain escaped newlines'')
      else (case GRAMMAR line of
              Inl e \<Rightarrow> (if e = FailedToken then Inl (ParseError None) else Inl e)
            | Inr a \<Rightarrow> Inr (interpret_ast a)))"

subsection \<open>The grammar of a content line\<close>

text \<open>
  Modelled from the spec: the grammar of \<open>contentline.ebnf\<close>, which is not among the
  sources. The spec gives its shape,
  \<open>NAME(;PARAM-NAME=VALUE(,VALUE)*)*:VALUE\<close>, "NAME and PARAM-NAME are restricted to a
  defined character class, PARAM values may be quoted or bare, VALUE is free text up to
  end of logical line". The character classes are parameters of the model: the
  characters of a name, of a bare parameter value, of a quoted parameter value and of a
  value. The rules are applied the way a PEG parser does: repetitions are greedy and an
  alternative that matched is not tried again.
\<close>

record char_classes =
  name_char :: "char \<Rightarrow> bool"
  safe_char :: "char \<Rightarrow> bool"
  qsafe_char :: "char \<Rightarrow> bool"
  value_char :: "char \<Rightarrow> bool"

text \<open>A name: one or more name characters.\<close>

definition parse_name :: "char_classes \<Rightarrow> string \<Rightarrow> (string \<times> string) option" where
  "parse_name g s =
     (let n = takeWhile (name_char g) s
      in if n = [] then None else Some (n, dropWhile (name_char g) s))"

text \<open>
  A parameter value: a quoted string, of which the characters between the quotes are
  kept, or else a run of bare characters, which may be empty.
\<close>

definition paramtext :: "char_classes \<Rightarrow> string \<Rightarrow> string \<times> string" where
  "paramtext g s = (takeWhile (safe_char g) s, dropWhile (safe_char g) s)"

definition parse_param_value :: "char_classes \<Rightarrow> string \<Rightarrow> string \<times> string" where
  "parse_param_value g s =
     (case s of
        [] \<Rightarrow> paramtext g s
      | c # r \<Rightarrow>
          if c = CHR 0x22 then
            (case dropWhile (qsafe_char g) r of
               [] \<Rightarrow> paramtext g s
             | d # r' \<Rightarrow>
                 if d = CHR 0x22 then (takeWhile (qsafe_char g) r, r')
                 else paramtext g s)
          else paramtext g s)"

lemma parse_param_value_length:
  "parse_param_value g s = (v, r) \<Longrightarrow> length r \<le> length s"
proof -
  have tw: "\<And>P (xs :: string). length (dropWhile P xs) \<le> length xs"
    by (simp add: length_dropWhile_le)
  assume a: "parse_param_value g s = (v, r)"
  show ?thesis
  proof (cases s)
    case Nil
    with a show ?thesis by (simp add: parse_param_value_def paramtext_def)
  next
    case (Cons c t)
    show ?thesis
    proof (cases "c = CHR 0x22")
      case False
      with a Cons have "r = dropWhile (safe_char g) s"
        by (auto simp: parse_param_value_def paramtext_def)
      then show ?thesis using tw by simp
    next
      case True
      show ?thesis
      proof (cases "dropWhile (qsafe_char g) t")
        case Nil
        with a Cons True have "r = dropWhile (safe_char g) s"
          by (auto simp: parse_param_value_def paramtext_def)
        then show ?thesis using tw by simp
      next
        case (Cons d r')
        note dw = this
        show ?thesis
        proof (cases "d = CHR 0x22")
          case False
          with a \<open>s = c # t\<close> True dw have "r = dropWhile (safe_char g) s"
            by (auto simp: parse_param_value_def paramtext_def)
          then show ?thesis using tw by simp
        next
          case dq: True
          with a \<open>s = c # t\<close> True dw have "r = r'"
            by (auto simp: parse_param_value_def)
          moreover have "length (dropWhile (qsafe_char g) t) \<le> length t" by (rule tw)
          ultimately show ?thesis using dw \<open>s = c # t\<close> by simp
        qed
      qed
    qed
  qed
qed

text \<open>The repetition \<open>("," value)*\<close> after the first value of a parameter.\<close>

function more_values :: "char_classes \<Rightarrow> string \<Rightarrow> string list \<times> string" where
  "more_values g [] = ([], [])"
| "more_values g (c # r) =
     (if c = CHR '','' then
        (case parse_param_value g r of
           (v, r') \<Rightarrow> (case more_values g r' of (vs, r'') \<Rightarrow> (v # vs, r'')))
      else ([], c # r))"
  by pat_completeness auto

termination more_values
proof (relation "measure (\<lambda>(g, s). length s)")
  show "wf (measure (\<lambda>(g, s). length s))" by simp
next
  fix g :: char_classes and c :: char and r :: string and v r'
  assume "(v, r') = parse_param_value g r"
  then have "length r' \<le> length r"
    using parse_param_value_length [of g r v r'] by simp
  then show "((g, r'), (g, c # r)) \<in> measure (\<lambda>(g, s). length s)" by simp
qed

text \<open>A parameter: \<open>PARAM-NAME=VALUE(,VALUE)*\<close>.\<close>

definition parse_param :: "char_classes \<Rightarrow> string \<Rightarrow> (param_ast \<times> string) option" where
  "parse_param g s =
     (case parse_name g s of
        None \<Rightarrow> None
      | Some (n, r) \<Rightarrow>
          (case r of
             [] \<Rightarrow> None
           | c # r1 \<Rightarrow>
               if c = CHR ''='' then
                 (case parse_param_value g r1 of
                    (v, r2) \<Rightarrow>
                      (case more_values g r2 of
                         (vs, r3) \<Rightarrow> Some (\<lparr>p_name = n, p_values = v # vs\<rparr>, r3)))
               else None))"


lemma more_values_length: "more_values g s = (vs, r) \<Longrightarrow> length r \<le> length s"
proof (induction g s arbitrary: vs r rule: more_values.induct)
  case (1 g)
  then show ?case by simp
next
  case (2 g c t)
  show ?case
  proof (cases "c = CHR '',''")
    case False
    with "2.prems" show ?thesis by simp
  next
    case True
    obtain v r' where pv: "parse_param_value g t = (v, r')" by (cases "parse_param_value g t")
    obtain ws r'' where mv: "more_values g r' = (ws, r'')" by (cases "more_values g r'")
    from "2.prems" True pv mv have "r = r''" by simp
    moreover from "2.IH" [OF True pv [symmetric] mv] have "length r'' \<le> length r'" .
    moreover from parse_param_value_length [OF pv] have "length r' \<le> length t" .
    ultimately show ?thesis by simp
  qed
qed

lemma parse_name_length: "parse_name g s = Some (n, r) \<Longrightarrow> length r \<le> length s"
  by (auto simp: parse_name_def Let_def length_dropWhile_le split: if_splits)

lemma parse_param_length: "parse_param g s = Some (p, r) \<Longrightarrow> length r \<le> length s"
proof -
  assume a: "parse_param g s = Some (p, r)"
  then obtain n r0 where pn: "parse_name g s = Some (n, r0)"
    by (cases "parse_name g s") (auto simp: parse_param_def)
  with a obtain r1 where r0: "r0 = CHR ''='' # r1"
    by (cases r0) (auto simp: parse_param_def split: if_splits)
  obtain v r2 where pv: "parse_param_value g r1 = (v, r2)" by (cases "parse_param_value g r1")
  obtain vs r3 where mv: "more_values g r2 = (vs, r3)" by (cases "more_values g r2")
  from a pn r0 pv mv have "r = r3" by (simp add: parse_param_def)
  moreover from more_values_length [OF mv] have "length r3 \<le> length r2" .
  moreover from parse_param_value_length [OF pv] have "length r2 \<le> length r1" .
  moreover from parse_name_length [OF pn] r0 have "length r1 \<le> length s" by simp
  ultimately show ?thesis by simp
qed

text \<open>
  The repetition \<open>(";" param)*\<close>: it stops, without consuming anything more, where no
  further \<open>;\<close> and parameter can be read.
\<close>

function parse_params :: "char_classes \<Rightarrow> string \<Rightarrow> param_ast list \<times> string" where
  "parse_params g [] = ([], [])"
| "parse_params g (c # r) =
     (if c = CHR '';'' then
        (case parse_param g r of
           None \<Rightarrow> ([], c # r)
         | Some (p, r') \<Rightarrow> (case parse_params g r' of (ps, r'') \<Rightarrow> (p # ps, r'')))
      else ([], c # r))"
  by pat_completeness auto

termination parse_params
proof (relation "measure (\<lambda>(g, s). length s)")
  show "wf (measure (\<lambda>(g, s). length s))" by simp
next
  fix g :: char_classes and c :: char and r :: string and x2 p r'
  assume "parse_param g r = Some x2" "(p, r') = x2"
  then have "length r' \<le> length r"
    using parse_param_length [of g r p r'] by simp
  then show "((g, r'), (g, c # r)) \<in> measure (\<lambda>(g, s). length s)" by simp
qed

text \<open>
  The whole line: a name, the parameters, a colon, then the value, which must reach the
  end of the line. A line that does not match makes the parser raise: \<open>FailedToken\<close>
  where the colon, a literal token of the grammar, is missing; another failure of the
  parse where the line does not begin with a name or the value stops before the end of
  the line.
\<close>

definition contentline_grammar :: "char_classes \<Rightarrow> string \<Rightarrow> error + ast" where
  "contentline_grammar g s =
     (case parse_name g s of
        None \<Rightarrow> Inl FailedParse
      | Some (n, r) \<Rightarrow>
          (case parse_params g r of
             (ps, r') \<Rightarrow>
               (case r' of
                  [] \<Rightarrow> Inl FailedToken
                | c # v \<Rightarrow>
                    if c \<noteq> CHR '':'' then Inl FailedToken
                    else if list_all (value_char g) v
                    then Inr \<lparr>a_name = n, a_params = ps, a_value = v\<rparr>
                    else Inl FailedParse)))"

section \<open>The line unfolder and the pipeline\<close>

text \<open>
  \<open>str.isspace\<close> on the 8-bit characters, for \<open>len(line.strip()) == 0\<close>: a line is blank
  when all its characters are white space.
\<close>

definition isspace :: "char \<Rightarrow> bool" where
  "isspace c = ((of_char c :: nat) \<in> {9, 10, 11, 12, 13, 28, 29, 30, 31, 32, 133, 160})"

definition blank :: "string \<Rightarrow> bool" where
  "blank line = list_all isspace line"

text \<open>\<open>s.strip('\r')\<close> removes every carriage return at both ends of the string.\<close>

definition strip_cr :: "string \<Rightarrow> string" where
  "strip_cr s =
     rev (dropWhile (\<lambda>c. c = CHR 0x0D) (rev (dropWhile (\<lambda>c. c = CHR 0x0D) s)))"

text \<open>
  \<open>isinstance(v, collections.abc.Iterable)\<close>: strings, lists and containers have
  \<open>__iter__\<close>; a content line has not.
\<close>

fun is_iterable :: "pyval \<Rightarrow> bool" where
  "is_iterable (PyStr s) = True"
| "is_iterable (PyList xs) = True"
| "is_iterable (Container n xs) = True"
| "is_iterable v = False"

text \<open>
  The elements an iteration over a value yields. A string yields its characters. A
  content line has \<open>__getitem__\<close> only: iterating it asks for \<open>self.params[0]\<close>, which
  raises \<open>KeyError\<close> since the keys are strings.
\<close>

fun py_iter :: "pyval \<Rightarrow> error + pyval list" where
  "py_iter (PyStr s) = Inr (map (\<lambda>c. PyStr [c]) s)"
| "py_iter (PyList xs) = Inr xs"
| "py_iter (Container n xs) = Inr xs"
| "py_iter (Line l) = Inl KeyError"
| "py_iter v = Inl (TypeError ''object is not iterable'')"

text \<open>
  A generator is modelled by the list of what it yields; when it raises, the exception is
  the last element of that list.

  The loop of \<open>unfold_lines\<close>, with \<open>current_line\<close> as first argument. An element
  that is not a string has no method \<open>strip\<close>.
\<close>

fun unfold_loop :: "string \<Rightarrow> pyval list \<Rightarrow> (error + string) list" where
  "unfold_loop current_line [] = (if current_line \<noteq> [] then [Inr current_line] else [])"
| "unfold_loop current_line (PyStr line # rest) =
     (if blank line then unfold_loop current_line rest
      else if current_line = [] then unfold_loop (strip_cr line) rest
      else if hd line = CHR '' '' \<or> hd line = CHR 0x09
        then unfold_loop (current_line @ strip_cr (tl line)) rest
      else Inr current_line # unfold_loop (strip_cr line) rest)"
| "unfold_loop current_line (v # rest) = [Inl AttributeError]"

definition unfold_lines :: "pyval \<Rightarrow> (error + string) list" where
  "unfold_lines physical_lines =
     (if \<not> is_iterable physical_lines
      then [Inl (ParseError (Some ''Parameter `physical_lines` must be an iterable''))]
      else (case py_iter physical_lines of
              Inl e \<Rightarrow> [Inl e]
            | Inr ls \<Rightarrow> unfold_loop [] ls))"

text \<open>\<open>tokenize_line\<close>: a generator over a generator.\<close>

fun tokenize_line :: "(string \<Rightarrow> error + ast) \<Rightarrow> (error + string) list \<Rightarrow> token_stream" where
  "tokenize_line GRAMMAR [] = []"
| "tokenize_line GRAMMAR (Inl e # rest) = [Inl e]"
| "tokenize_line GRAMMAR (Inr line # rest) =
     (case ContentLine_parse GRAMMAR line of
        Inl e \<Rightarrow> [Inl e]
      | Inr t \<Rightarrow> Inr t # tokenize_line GRAMMAR rest)"

definition lines_to_container :: "(string \<Rightarrow> error + ast) \<Rightarrow> pyval \<Rightarrow> error + pyval list" where
  "lines_to_container GRAMMAR lines = parse (tokenize_line GRAMMAR (unfold_lines lines))"

text \<open>
  \<open>str.splitlines()\<close> on the 8-bit characters: a line ends at \<open>\n\<close>, \<open>\r\<close>, \<open>\r\n\<close>,
  \<open>\v\<close>, \<open>\f\<close>, \<open>\x1c\<close>, \<open>\x1d\<close>, \<open>\x1e\<close> or \<open>\x85\<close>; the terminators are dropped and no
  empty last line is produced.
\<close>

definition is_linebreak :: "char \<Rightarrow> bool" where
  "is_linebreak c = ((of_char c :: nat) \<in> {10, 11, 12, 13, 28, 29, 30, 133})"

fun splitlines_loop :: "string \<Rightarrow> string \<Rightarrow> string list" where
  "splitlines_loop cur [] = (if cur = [] then [] else [cur])"
| "splitlines_loop cur [c] =
     (if is_linebreak c then [cur] else [cur @ [c]])"
| "splitlines_loop cur (c # d # rest) =
     (if c = CHR 0x0D \<and> d = CHR 0x0A then cur # splitlines_loop [] rest
      else if is_linebreak c then cur # splitlines_loop [] (d # rest)
      else splitlines_loop (cur @ [c]) (d # rest))"

definition splitlines :: "string \<Rightarrow> string list" where
  "splitlines txt = splitlines_loop [] txt"

text \<open>\<open>string_to_container(txt)\<close>: only a string has \<open>splitlines\<close>.\<close>

fun string_to_container :: "(string \<Rightarrow> error + ast) \<Rightarrow> pyval \<Rightarrow> error + pyval list" where
  "string_to_container GRAMMAR (PyStr txt) =
     lines_to_container GRAMMAR (PyList (map PyStr (splitlines txt)))"
| "string_to_container GRAMMAR v = Inl AttributeError"

text \<open>\<open>isinstance(v, str)\<close>.\<close>

fun is_str :: "pyval \<Rightarrow> bool" where
  "is_str (PyStr s) = True"
| "is_str v = False"

definition calendar_string_to_containers ::
  "(string \<Rightarrow> error + ast) \<Rightarrow> pyval \<Rightarrow> error + pyval list" where
  "calendar_string_to_containers GRAMMAR string =
     (if \<not> is_str string then Inl (TypeError ''Expecting a string'')
      else string_to_container GRAMMAR string)"


section \<open>The list operations of \<open>Container\<close>\<close>

text \<open>
  A container object is its name and its elements. A method that mutates \<open>self\<close> returns
  its outcome (an exception or \<open>None\<close>) together with the object afterwards. Each
  overriding method checks the new value first and only then calls the method of \<open>list\<close>.
\<close>

type_synonym container = "string \<times> pyval list"

text \<open>\<open>self[index] = value\<close>, for an integer index: a negative one counts from the end.\<close>

definition Container_setitem :: "container \<Rightarrow> int \<Rightarrow> pyval \<Rightarrow> (error + unit) \<times> container" where
  "Container_setitem self index v =
     (case check_items [v] of
        Inl e \<Rightarrow> (Inl e, self)
      | Inr u \<Rightarrow>
          (let n = int (length (snd self));
               i = (if index < 0 then index + n else index)
           in if 0 \<le> i \<and> i < n
              then (Inr (), (fst self, (snd self)[nat i := v]))
              else (Inl IndexError, self)))"

text \<open>\<open>list.insert\<close> clips the index to the bounds of the list.\<close>

definition Container_insert :: "container \<Rightarrow> int \<Rightarrow> pyval \<Rightarrow> (error + unit) \<times> container" where
  "Container_insert self index v =
     (case check_items [v] of
        Inl e \<Rightarrow> (Inl e, self)
      | Inr u \<Rightarrow>
          (let n = int (length (snd self));
               i = (if index < 0 then max 0 (index + n) else min index n)
           in (Inr (), (fst self, take (nat i) (snd self) @ [v] @ drop (nat i) (snd self)))))"

definition Container_append :: "container \<Rightarrow> pyval \<Rightarrow> (error + unit) \<times> container" where
  "Container_append self v =
     (case check_items [v] of
        Inl e \<Rightarrow> (Inl e, self)
      | Inr u \<Rightarrow> (Inr (), (fst self, snd self @ [v])))"

text \<open>\<open>extend(values)\<close>: \<open>check_items(*values)\<close> iterates over \<open>values\<close>.\<close>

definition Container_extend :: "container \<Rightarrow> pyval \<Rightarrow> (error + unit) \<times> container" where
  "Container_extend self values =
     (case py_iter values of
        Inl e \<Rightarrow> (Inl e, self)
      | Inr vs \<Rightarrow>
          (case check_items vs of
             Inl e \<Rightarrow> (Inl e, self)
           | Inr u \<Rightarrow> (Inr (), (fst self, snd self @ vs))))"

text \<open>
  \<open>self + values\<close> builds a new container and leaves \<open>self\<close> as it is; \<open>self += values\<close>
  extends \<open>self\<close>.
\<close>

definition Container_add :: "container \<Rightarrow> pyval \<Rightarrow> error + container" where
  "Container_add self values =
     (case Container_init (fst self) [] of
        Inl e \<Rightarrow> Inl e
      | Inr c0 \<Rightarrow>
          (case Container_extend (fst self, []) (Container (fst self) (snd self)) of
             (Inl e, c1) \<Rightarrow> Inl e
           | (Inr u, c1) \<Rightarrow>
               (case Container_extend c1 values of
                  (Inl e, c2) \<Rightarrow> Inl e
                | (Inr u', c2) \<Rightarrow> Inr c2)))"

definition Container_iadd :: "container \<Rightarrow> pyval \<Rightarrow> (error + unit) \<times> container" where
  "Container_iadd self values = Container_extend self values"

text \<open>The invariant: every element is a content line or a container.\<close>

definition items_ok :: "container \<Rightarrow> bool" where
  "items_ok self = list_all is_item (snd self)"

section \<open>Equality\<close>

text \<open>
  \<open>==\<close> on two dicts: the same keys with equal values, in any order.
\<close>

definition dict_eq :: "(string \<times> string list) list \<Rightarrow> (string \<times> string list) list \<Rightarrow> bool" where
  "dict_eq d1 d2 =
     (length d1 = length d2 \<and> list_all (\<lambda>(k, v). map_of d2 k = Some v) d1)"

text \<open>
  attrs generates \<open>ContentLine.__eq__\<close>, which compares the three fields.
  \<open>Container\<close> defines no \<open>__eq__\<close>: it inherits the one of \<open>list\<close>, which compares the
  lengths and then the elements in order, and knows nothing of the attribute \<open>name\<close>.
  The same method compares a container with a plain list.
\<close>

fun py_eq :: "pyval \<Rightarrow> pyval \<Rightarrow> bool"
  and list_eq :: "pyval list \<Rightarrow> pyval list \<Rightarrow> bool"
where
  "py_eq PyNone PyNone = True"
| "py_eq (PyInt a) (PyInt b) = (a = b)"
| "py_eq (PyStr a) (PyStr b) = (a = b)"
| "py_eq (Line a) (Line b) =
     (name a = name b \<and> dict_eq (params a) (params b) \<and> val a = val b)"
| "py_eq (PyList xs) (PyList ys) = list_eq xs ys"
| "py_eq (PyList xs) (Container m ys) = list_eq xs ys"
| "py_eq (Container n xs) (PyList ys) = list_eq xs ys"
| "py_eq (Container n xs) (Container m ys) = list_eq xs ys"
| "py_eq v w = False"
| "list_eq [] [] = True"
| "list_eq (x # xs) (y # ys) = (py_eq x y \<and> list_eq xs ys)"
| "list_eq xs ys = False"

section \<open>The interval queries of the timeline\<close>

text \<open>
  Modelled from the spec: the class \<open>Timeline\<close> of \<open>ics/timeline.py\<close>, which is not among
  the sources (only its tests are). A time-bounded record has an optional start and an
  optional end; instants are integers (seconds). "Records missing a start instant are
  excluded from iteration and from every query"; iteration is in start-ascending order,
  "records with equal start are ordered by their relative position in the underlying
  collection (stable sort)".
\<close>

record tbr =
  r_start :: "int option"
  r_end :: "int option"

definition has_start :: "'a tbr_scheme \<Rightarrow> bool" where
  "has_start r = (r_start r \<noteq> None)"

definition start_of :: "'a tbr_scheme \<Rightarrow> int" where
  "start_of r = the (r_start r)"

text \<open>"end (or start, if the record has no end -- treated as an instantaneous record)".\<close>

definition end_or_start :: "'a tbr_scheme \<Rightarrow> int" where
  "end_or_start r = (case r_end r of Some e \<Rightarrow> e | None \<Rightarrow> start_of r)"

definition timeline :: "'a tbr_scheme list \<Rightarrow> 'a tbr_scheme list" where
  "timeline recs = sort_key start_of (filter has_start recs)"

text \<open>
  Modelled from the spec: "\<open>included(begin, end)\<close>: return, in start-ascending order,
  every record whose start \<open>\<ge>\<close> begin AND whose end (or start) \<open>\<le>\<close> end".
\<close>

definition included :: "int \<Rightarrow> int \<Rightarrow> 'a tbr_scheme list \<Rightarrow> 'a tbr_scheme list" where
  "included b e recs =
     filter (\<lambda>r. b \<le> start_of r \<and> end_or_start r \<le> e) (timeline recs)"

text \<open>
  Modelled from the spec: "\<open>overlapping(begin, end)\<close>: \<open>record.start \<le> end\<close> AND
  \<open>record.end-or-start \<ge> begin\<close>".
\<close>

definition overlapping :: "int \<Rightarrow> int \<Rightarrow> 'a tbr_scheme list \<Rightarrow> 'a tbr_scheme list" where
  "overlapping b e recs =
     filter (\<lambda>r. start_of r \<le> e \<and> b \<le> end_or_start r) (timeline recs)"

text \<open>
  Modelled from the spec: \<open>on(instant, strict)\<close>. Non-strict mode "is equivalent to
  \<open>overlapping(day_start, day_start + 1day)\<close>". For strict mode the spec gives an
  example, in which \<open>on(2015-10-10T12:00, strict=True)\<close> "returns only" the event at
  2015-10-10T00:00 and not the one that spans 2014 to 2018; it is \<open>test_on_strict\<close> of
  the repository. The records that lie within the day of the instant give this result
  (those that contain the instant would give the opposite one), so strict mode is
  \<open>included\<close> on the window of the day.
\<close>

definition day_start :: "int \<Rightarrow> int" where
  "day_start t = t - t mod 86400"

definition on :: "int \<Rightarrow> bool \<Rightarrow> 'a tbr_scheme list \<Rightarrow> 'a tbr_scheme list" where
  "on instant strict recs =
     (if strict then included (day_start instant) (day_start instant + 86400) recs
      else overlapping (day_start instant) (day_start instant + 86400) recs)"

text \<open>
  The events of \<open>src/tests/timeline.py\<close>: a record with a label that tells the events
  apart, the five events of \<open>test_included\<close>, \<open>test_on\<close> and \<open>test_on_strict\<close>, and the
  three of \<open>test_overlapping\<close>, with their instants in seconds (2015-10-10 is
  1444435200).
\<close>

record event = tbr +
  label :: nat

definition test_events :: "event list" where
  "test_events =
    [\<lparr>r_start = Some 1444435200, r_end = None, label = 0\<rparr>,
     \<lparr>r_start = Some 1286668800, r_end = None, label = 1\<rparr>,
     \<lparr>r_start = Some 1602288000, r_end = None, label = 2\<rparr>,
     \<lparr>r_start = Some 1420848000, r_end = None, label = 3\<rparr>,
     \<lparr>r_start = Some 1389312000, r_end = Some 1515542400, label = 4\<rparr>]"

definition test_overlapping_events :: "event list" where
  "test_overlapping_events =
    [\<lparr>r_start = Some 1286668800, r_end = Some 1349827200, label = 0\<rparr>,
     \<lparr>r_start = Some 1381363200, r_end = Some 1412899200, label = 1\<rparr>,
     \<lparr>r_start = Some 1476057600, r_end = Some 1507593600, label = 2\<rparr>]"

section \<open>The explicit-stack reading of a token sequence\<close>

text \<open>
  The spec describes the builder also as a state machine with "an explicit stack of open
  block names". \<open>scan\<close> reads a token sequence in this way. Its state is the stack of
  the blocks that are open, innermost first, each with the children read for it so far,
  and the list of the top-level items. A \<open>BEGIN\<close> opens a block; an \<open>END\<close> must carry
  the name of the innermost open block, which it closes: the block becomes a child of
  the block around it, or a top-level item; any other token is a child of the innermost
  open block, or a top-level item. At top level an \<open>END\<close> is such a token. The
  result is \<open>None\<close> when an \<open>END\<close> does not match, and otherwise the state when the
  input is exhausted: its stack is not empty when a block is still open.
\<close>

type_synonym frame = "string \<times> pyval list"

fun scan :: "frame list \<Rightarrow> pyval list \<Rightarrow> ContentLine list \<Rightarrow> (frame list \<times> pyval list) option" where
  "scan st res [] = Some (st, res)"
| "scan st res (t # ts) =
     (if name t = ''BEGIN'' then scan ((val t, []) # st) res ts
      else (case st of
              [] \<Rightarrow> scan [] (res @ [Line t]) ts
            | (n, items) # st' \<Rightarrow>
                if name t = ''END'' then
                  (if val t \<noteq> n then None
                   else (case st' of
                           [] \<Rightarrow> scan [] (res @ [Container n items]) ts
                         | (m, items') # st'' \<Rightarrow>
                             scan ((m, items' @ [Container n items]) # st'') res ts))
                else scan ((n, items @ [Line t]) # st') res ts))"

text \<open>
  The open blocks closed where the input ends: each holds the children read for it,
  followed by the block that was open inside it.
\<close>

fun close_all :: "frame list \<Rightarrow> pyval list \<Rightarrow> pyval list" where
  "close_all [] inner = inner"
| "close_all ((n, items) # st) inner = close_all st [Container n (items @ inner)]"

text \<open>
  The calls of \<open>Container.parse\<close> that are under way when the blocks of a stack are
  open: the loop of the innermost block runs, and what it returns is appended by the loop
  of the block around it, which goes on with the rest of the tokens; the outermost call
  returns to the loop of \<open>parse\<close>.
\<close>

fun resume :: "frame \<Rightarrow> frame list \<Rightarrow> token_stream \<Rightarrow> error + (pyval \<times> token_stream)" where
  "resume (n, items) [] ts = Container_parse_loop n items ts"
| "resume (n, items) ((m, items') # st) ts =
     (case Container_parse_loop n items ts of
        Inl e \<Rightarrow> Inl e
      | Inr (c, rest) \<Rightarrow> resume (m, items' @ [c]) st rest)"

fun resume_top :: "frame list \<Rightarrow> pyval list \<Rightarrow> token_stream \<Rightarrow> error + pyval list" where
  "resume_top [] res ts = parse_loop res ts"
| "resume_top (f # st) res ts =
     (case resume f st ts of
        Inl e \<Rightarrow> Inl e
      | Inr (c, rest) \<Rightarrow> parse_loop (res @ [c]) rest)"

text \<open>The children read for every open block are content lines and containers.\<close>

definition frames_ok :: "frame list \<Rightarrow> bool" where
  "frames_ok st = list_all (\<lambda>f. list_all is_item (snd f)) st"

section \<open>Notions of the specification\<close>

text \<open>
  The tokens that need no quoting: content lines whose fields are runs of the characters
  the grammar reads bare, and that a constructor call can have built. The name is a
  non-empty run of name characters and is in upper case; the parameters are a dict
  (distinct keys), each with a name, at least one value, and values that are runs of
  bare characters; the value is a run of value characters; and the textual form has no
  raw newline or carriage return.
\<close>

definition valid_param :: "char_classes \<Rightarrow> string \<times> string list \<Rightarrow> bool" where
  "valid_param g p =
     (fst p \<noteq> [] \<and> list_all (name_char g) (fst p)
      \<and> snd p \<noteq> [] \<and> list_all (list_all (safe_char g)) (snd p))"

definition valid_token :: "char_classes \<Rightarrow> ContentLine \<Rightarrow> bool" where
  "valid_token g T =
     (name T \<noteq> [] \<and> list_all (name_char g) (name T) \<and> upper (name T) = name T
      \<and> distinct (map fst (params T)) \<and> list_all (valid_param g) (params T)
      \<and> list_all (value_char g) (val T)
      \<and> CHR 0x0A \<notin> set (ContentLine_str T) \<and> CHR 0x0D \<notin> set (ContentLine_str T))"

text \<open>
  What the shape of the grammar needs of the character classes: the delimiters that end
  a name (\<open>;\<close>, \<open>:\<close>, \<open>=\<close>) are not name characters, and the quote and the delimiters
  that end a bare parameter value (\<open>,\<close>, \<open>;\<close>, \<open>:\<close>) are not bare characters.
\<close>

definition delimiters_excluded :: "char_classes \<Rightarrow> bool" where
  "delimiters_excluded g =
     (\<not> name_char g (CHR '';'') \<and> \<not> name_char g (CHR '':'') \<and> \<not> name_char g (CHR ''='')
      \<and> \<not> safe_char g (CHR 0x22) \<and> \<not> safe_char g (CHR '','')
      \<and> \<not> safe_char g (CHR '';'') \<and> \<not> safe_char g (CHR '':''))"

text \<open>The syntax tree of one parameter of a token.\<close>

definition param_ast_of :: "string \<times> string list \<Rightarrow> param_ast" where
  "param_ast_of p = \<lparr>p_name = fst p, p_values = snd p\<rparr>"

text \<open>
  Modelled from the spec: character classes for the grammar. The spec gives the class of
  names, "letters, digits, hyphen"; bare parameter values exclude the quote and the
  delimiters, and no class holds a line feed or a carriage return.
\<close>

definition spec_classes :: char_classes where
  "spec_classes =
     \<lparr>name_char = (\<lambda>c. c \<in> set ''ABCDEFGHIJKLMNOPQRSTUVWXYZabcdefghijklmnopqrstuvwxyz0123456789-''),
      safe_char = (\<lambda>c. c \<notin> {CHR 0x22, CHR '','', CHR '';'', CHR '':'', CHR 0x0A, CHR 0x0D}),
      qsafe_char = (\<lambda>c. c \<notin> {CHR 0x22, CHR 0x0A, CHR 0x0D}),
      value_char = (\<lambda>c. c \<notin> {CHR 0x0A, CHR 0x0D})\<rparr>"

text \<open>
  The condition of the spec on the input of the unfolder, "no line starts with
  space/tab".
\<close>

definition starts_with_space_or_tab :: "string \<Rightarrow> bool" where
  "starts_with_space_or_tab line =
     (case line of [] \<Rightarrow> False | c # r \<Rightarrow> c = CHR '' '' \<or> c = CHR 0x09)"

text \<open>
  The normalisation of a line in the words of the spec, "trailing carriage-return
  stripped": the carriage returns at the end of the line are removed, the rest is kept.
\<close>

definition strip_trailing_cr :: "string \<Rightarrow> string" where
  "strip_trailing_cr s = rev (dropWhile (\<lambda>c. c = CHR 0x0D) (rev s))"

section \<open>Properties of the container builder\<close>

lemma check_each_ok: "list_all is_item items \<Longrightarrow> check_each nr items = Inr ()"
  by (induction items arbitrary: nr) (auto simp: check_is_instance_def)

lemma check_each_bad:
  "\<not> list_all is_item items \<Longrightarrow> \<exists>msg. check_each nr items = Inl (TypeError msg)"
  by (induction items arbitrary: nr) (auto simp: check_is_instance_def)

lemma check_items_ok: "list_all is_item items \<Longrightarrow> check_items items = Inr ()"
  by (cases items) (auto simp: check_items_def check_is_instance_def check_each_ok)

lemma check_items_bad:
  "\<not> list_all is_item items \<Longrightarrow> \<exists>msg. check_items items = Inl (TypeError msg)"
  using check_each_bad [of items 0]
  by (cases items) (auto simp: check_items_def check_is_instance_def)

lemma Container_init_ok:
  "list_all is_item items \<Longrightarrow> Container_init nm items = Inr (Container nm items)"
  by (simp add: Container_init_def check_items_ok)

text \<open>
  The builder has two ways to fail: an exception of the token stream itself, and an
  \<open>END\<close> that does not match. The end of the input is not one of them.
\<close>

lemma Container_init_is_item: "Container_init nm items = Inr c \<Longrightarrow> is_item c"
  by (auto simp: Container_init_def split: sum.splits)

lemma Container_parse_loop_result:
  "Container_parse_loop nm items ts = Inr (c, rest) \<Longrightarrow> is_item c \<and> set rest \<subseteq> set ts"
proof (induction nm items ts arbitrary: c rest rule: Container_parse_loop.induct)
  case (1 nm items)
  then show ?case by (auto split: sum.splits dest: Container_init_is_item)
next
  case (2 nm items e rest)
  then show ?case by simp
next
  case (3 nm items line ts)
  show ?case
  proof (cases "name line = ''BEGIN''")
    case True
    from "3.prems" True obtain c' r' where
      inner: "Container_parse_loop (val line) [] ts = Inr (c', r')" and
      outer: "Container_parse_loop nm (items @ [c']) r' = Inr (c, rest)"
      by (auto split: sum.splits)
    from "3.IH"(1) [OF True inner] have "set r' \<subseteq> set ts" by simp
    moreover from "3.IH"(2) [OF True inner refl outer] have "is_item c" "set rest \<subseteq> set r'"
      by simp_all
    ultimately show ?thesis by auto
  next
    case False
    note notbegin = this
    show ?thesis
    proof (cases "name line = ''END''")
      case True
      with "3.prems" notbegin show ?thesis
        by (auto split: sum.splits if_splits dest: Container_init_is_item)
    next
      case False
      with "3.prems" notbegin have
        "Container_parse_loop nm (items @ [Line line]) ts = Inr (c, rest)"
        by simp
      from "3.IH"(3) [OF notbegin False this] show ?thesis by auto
    qed
  qed
qed

lemma Container_parse_loop_errors:
  "Container_parse_loop nm items ts = Inl e \<Longrightarrow> list_all is_item items \<Longrightarrow>
   Inl e \<in> set ts \<or>
   (\<exists>expected got.
      e = ParseError (Some (''Expected END:'' @ expected @ '', got END:'' @ got)))"
proof (induction nm items ts rule: Container_parse_loop.induct)
  case (1 nm items)
  then show ?case by (simp add: Container_init_ok)
next
  case (2 nm items e' rest)
  then show ?case by simp
next
  case (3 nm items line ts)
  show ?case
  proof (cases "name line = ''BEGIN''")
    case True
    show ?thesis
    proof (cases "Container_parse_loop (val line) [] ts")
      case (Inl e')
      with "3.prems"(1) True have "e' = e" by simp
      with Inl "3.IH"(1) [OF True] show ?thesis by auto
    next
      case (Inr cr)
      obtain c r' where cr: "cr = (c, r')" by (cases cr)
      with Inr have inner: "Container_parse_loop (val line) [] ts = Inr (c, r')" by simp
      from Container_parse_loop_result [OF inner] have c: "is_item c" and sub: "set r' \<subseteq> set ts"
        by simp_all
      from "3.prems"(1) True inner have outer: "Container_parse_loop nm (items @ [c]) r' = Inl e"
        by simp
      have "list_all is_item (items @ [c])" using "3.prems"(2) c by simp
      from "3.IH"(2) [OF True inner refl outer this] sub show ?thesis by auto
    qed
  next
    case False
    note notbegin = this
    show ?thesis
    proof (cases "name line = ''END''")
      case True
      with "3.prems" notbegin show ?thesis
        by (auto simp: Container_init_ok split: if_splits)
    next
      case False
      with "3.prems"(1) notbegin have
        "Container_parse_loop nm (items @ [Line line]) ts = Inl e" by simp
      moreover have "list_all is_item (items @ [Line line])" using "3.prems"(2) by simp
      ultimately show ?thesis using "3.IH"(3) [OF notbegin False] by auto
    qed
  qed
qed

text \<open>
  Claim C1 as stated: when the input is exhausted while a block opened by \<open>BEGIN\<close> is
  still open, the builder raises a structural error and returns no tree. The code does
  not: the \<open>for\<close> loop of \<open>Container.parse\<close> simply ends and the container is returned.
  For the tokens \<open>BEGIN:VEVENT\<close>, \<open>SUMMARY:x\<close>, with no \<open>END\<close>, both \<open>Container.parse\<close>
  (called on what follows the \<open>BEGIN\<close>) and \<open>parse\<close> return a tree and no error.
\<close>

theorem unterminated_BEGIN_returns_tree:
  "Container_parse ''VEVENT'' [Inr \<lparr>name = ''SUMMARY'', params = [], val = ''x''\<rparr>] =
     Inr (Container ''VEVENT'' [Line \<lparr>name = ''SUMMARY'', params = [], val = ''x''\<rparr>], [])
   \<and> parse [Inr \<lparr>name = ''BEGIN'', params = [], val = ''VEVENT''\<rparr>,
             Inr \<lparr>name = ''SUMMARY'', params = [], val = ''x''\<rparr>] =
     Inr [Container ''VEVENT'' [Line \<lparr>name = ''SUMMARY'', params = [], val = ''x''\<rparr>]]
   \<and> \<not> (\<exists>e. parse [Inr \<lparr>name = ''BEGIN'', params = [], val = ''VEVENT''\<rparr>,
             Inr \<lparr>name = ''SUMMARY'', params = [], val = ''x''\<rparr>] = Inl e)"
  by (simp add: Container_parse_def parse_def Container_init_def check_items_def
      check_is_instance_def)

text \<open>
  The recursive builder follows the explicit-stack reading: one token moves the calls
  under way as it moves the stack.
\<close>

lemma resume_BEGIN:
  "name t = ''BEGIN'' \<Longrightarrow>
   resume (n, items) st (Inr t # ts) = resume (val t, []) ((n, items) # st) ts"
  by (cases st) (auto split: sum.splits)

lemma resume_plain:
  "name t \<noteq> ''BEGIN'' \<Longrightarrow> name t \<noteq> ''END'' \<Longrightarrow>
   resume (n, items) st (Inr t # ts) = resume (n, items @ [Line t]) st ts"
  by (cases st) (auto split: sum.splits)

lemma resume_END_mismatch:
  "name t = ''END'' \<Longrightarrow> val t \<noteq> n \<Longrightarrow>
   resume (n, items) st (Inr t # ts) =
     Inl (ParseError (Some (''Expected END:'' @ n @ '', got END:'' @ val t)))"
  by (cases st) (auto split: sum.splits)

lemma resume_exhausted:
  "frames_ok ((n, items) # st) \<Longrightarrow>
   \<exists>c. close_all ((n, items) # st) [] = [c] \<and> resume (n, items) st [] = Inr (c, [])"
proof (induction st arbitrary: n items)
  case Nil
  then show ?case by (simp add: frames_ok_def Container_init_ok)
next
  case (Cons f st)
  obtain m items' where f: "f = (m, items')" by (cases f)
  from Cons.prems f have ok: "frames_ok ((m, items' @ [Container n items]) # st)"
    and it: "list_all is_item items"
    by (simp_all add: frames_ok_def)
  from Cons.IH [OF ok] it f show ?case by (simp add: Container_init_ok)
qed

lemma scan_res_grows:
  "scan st res toks = Some (st2, res2) \<Longrightarrow> length res \<le> length res2"
proof (induction toks arbitrary: st res)
  case Nil
  then show ?case by simp
next
  case (Cons t ts)
  then show ?case
    by (fastforce split: if_splits list.splits prod.splits)
qed


lemma frames_ok_Cons: "frames_ok ((n, items) # st) = (list_all is_item items \<and> frames_ok st)"
  by (simp add: frames_ok_def)

lemma resume_top_scan:
  "scan st res pre = Some (st2, res2) \<Longrightarrow> frames_ok st \<Longrightarrow>
   resume_top st res (map Inr pre @ ts) = resume_top st2 res2 ts \<and> frames_ok st2"
proof (induction pre arbitrary: st res)
  case Nil
  then show ?case by simp
next
  case (Cons t pre)
  show ?case
  proof (cases "name t = ''BEGIN''")
    case True
    with Cons.prems(1) have sc: "scan ((val t, []) # st) res pre = Some (st2, res2)" by simp
    have ok: "frames_ok ((val t, []) # st)" using Cons.prems(2) by (simp add: frames_ok_Cons)
    have "resume_top st res (Inr t # map Inr pre @ ts)
          = resume_top ((val t, []) # st) res (map Inr pre @ ts)"
    proof (cases st)
      case Nil
      with True show ?thesis by (simp add: Container_parse_def)
    next
      case (Cons f st')
      obtain n items where "f = (n, items)" by (cases f)
      with Cons True show ?thesis by (simp add: resume_BEGIN)
    qed
    with Cons.IH [OF sc ok] show ?thesis by simp
  next
    case nb: False
    show ?thesis
    proof (cases st)
      case Nil
      with nb Cons.prems(1) have sc: "scan [] (res @ [Line t]) pre = Some (st2, res2)" by simp
      from Cons.IH [OF sc] Nil nb show ?thesis by (simp add: frames_ok_def)
    next
      case (Cons f st')
      obtain n items where f: "f = (n, items)" by (cases f)
      from Cons.prems(2) Cons f have it: "list_all is_item items" and ok': "frames_ok st'"
        by (simp_all add: frames_ok_Cons)
      show ?thesis
      proof (cases "name t = ''END''")
        case False
        with nb Cons.prems(1) Cons f
        have sc: "scan ((n, items @ [Line t]) # st') res pre = Some (st2, res2)" by simp
        have ok: "frames_ok ((n, items @ [Line t]) # st')"
          using it ok' by (simp add: frames_ok_Cons)
        from Cons.IH [OF sc ok] Cons f nb False show ?thesis by (simp add: resume_plain)
      next
        case True
        with nb Cons.prems(1) Cons f have v: "val t = n" by (auto split: if_splits)
        show ?thesis
        proof (cases st')
          case Nil
          with nb True v Cons.prems(1) Cons f \<open>st = f # st'\<close>
          have sc: "scan [] (res @ [Container n items]) pre = Some (st2, res2)" by simp
          have "frames_ok []" by (simp add: frames_ok_def)
          from Cons.IH [OF sc this] Nil \<open>st = f # st'\<close> f True v it show ?thesis
            by (simp add: Container_init_ok)
        next
          case (Cons g st'')
          obtain m items' where g: "g = (m, items')" by (cases g)
          from nb True v Cons.prems(1) Cons g f \<open>st = f # st'\<close>
          have sc: "scan ((m, items' @ [Container n items]) # st'') res pre = Some (st2, res2)"
            by simp
          have ok: "frames_ok ((m, items' @ [Container n items]) # st'')"
            using ok' Cons g by (simp add: frames_ok_Cons)
          from Cons.IH [OF sc ok] Cons g \<open>st = f # st'\<close> f True v it show ?thesis
            by (simp add: Container_init_ok)
        qed
      qed
    qed
  qed
qed

lemma resume_scan:
  "scan (f # st) [] pre = Some (f2 # st2, []) \<Longrightarrow> frames_ok (f # st) \<Longrightarrow>
   resume f st (map Inr pre @ ts) = resume f2 st2 ts \<and> frames_ok (f2 # st2)
   \<and> fst (last (f2 # st2)) = fst (last (f # st))"
proof (induction pre arbitrary: f st)
  case Nil
  then show ?case by simp
next
  case (Cons t pre)
  obtain n items where f: "f = (n, items)" by (cases f)
  from Cons.prems(2) f have it: "list_all is_item items" and ok': "frames_ok st"
    by (simp_all add: frames_ok_Cons)
  show ?case
  proof (cases "name t = ''BEGIN''")
    case True
    with Cons.prems(1) have sc: "scan ((val t, []) # f # st) [] pre = Some (f2 # st2, [])"
      by simp
    have ok: "frames_ok ((val t, []) # f # st)" using Cons.prems(2) by (simp add: frames_ok_Cons)
    from Cons.IH [OF sc ok] True f show ?thesis by (simp add: resume_BEGIN)
  next
    case nb: False
    show ?thesis
    proof (cases "name t = ''END''")
      case False
      with nb Cons.prems(1) f
      have sc: "scan ((n, items @ [Line t]) # st) [] pre = Some (f2 # st2, [])" by simp
      have ok: "frames_ok ((n, items @ [Line t]) # st)"
        using it ok' by (simp add: frames_ok_Cons)
      from Cons.IH [OF sc ok] f nb False show ?thesis by (simp add: resume_plain)
    next
      case True
      with nb Cons.prems(1) f have v: "val t = n" by (auto split: if_splits)
      show ?thesis
      proof (cases st)
        case Nil
        with nb True v Cons.prems(1) f
        have "scan [] [Container n items] pre = Some (f2 # st2, [])" by simp
        from scan_res_grows [OF this] show ?thesis by simp
      next
        case (Cons g st'')
        obtain m items' where g: "g = (m, items')" by (cases g)
        from nb True v Cons.prems(1) Cons g f
        have sc: "scan ((m, items' @ [Container n items]) # st'') [] pre = Some (f2 # st2, [])"
          by simp
        have ok: "frames_ok ((m, items' @ [Container n items]) # st'')"
          using ok' it Cons g by (simp add: frames_ok_Cons)
        from Cons.IH [OF sc ok] Cons g f True v it show ?thesis
          by (simp add: Container_init_ok)
      qed
    qed
  qed
qed

text \<open>
  Claim C1, amended: for every token sequence in which no \<open>END\<close> fails to match, the
  builder raises no error, also when blocks opened by \<open>BEGIN\<close> are still open when the
  input is exhausted: each block still open is closed where the input ends, with the
  children read for it so far, and is the last child of the block around it. \<open>parse\<close>
  returns the top-level items read, followed by the outermost open block if there is
  one; \<open>Container.parse\<close>, whose own block is then the outermost open one, returns the
  container of its block and leaves no token.
\<close>

theorem unterminated_blocks_are_returned:
  "(scan [] [] toks = Some (st, res) \<longrightarrow> parse (map Inr toks) = Inr (res @ close_all st []))
   \<and> (scan [(nm, [])] [] toks = Some (st, []) \<and> st \<noteq> [] \<longrightarrow>
        (\<exists>c. close_all st [] = [c] \<and> Container_parse nm (map Inr toks) = Inr (c, [])))"
proof -
  have top: "parse (map Inr toks) = Inr (res @ close_all st [])"
    if sc: "scan [] [] toks = Some (st, res)"
  proof -
    have "frames_ok []" by (simp add: frames_ok_def)
    from resume_top_scan [OF sc this, of "[]"]
    have eq: "parse (map Inr toks) = resume_top st res []" and ok: "frames_ok st"
      by (simp_all add: parse_def)
    show ?thesis
    proof (cases st)
      case Nil
      with eq show ?thesis by simp
    next
      case (Cons f st')
      obtain n items where f: "f = (n, items)" by (cases f)
      from resume_exhausted [of n items st'] ok Cons f obtain c where
        "close_all st [] = [c]" "resume f st' [] = Inr (c, [])" by auto
      with eq Cons show ?thesis by simp
    qed
  qed
  have blk: "\<exists>c. close_all st [] = [c] \<and> Container_parse nm (map Inr toks) = Inr (c, [])"
    if sc: "scan [(nm, [])] [] toks = Some (st, [])" and ne: "st \<noteq> []"
  proof -
    from ne obtain f2 st2 where st: "st = f2 # st2" by (cases st) auto
    have ok0: "frames_ok [(nm, [])]" by (simp add: frames_ok_def)
    from resume_scan [OF sc [unfolded st] ok0, of "[]"]
    have eq: "Container_parse nm (map Inr toks) = resume f2 st2 []" and ok: "frames_ok (f2 # st2)"
      by (simp_all add: Container_parse_def)
    obtain n items where f: "f2 = (n, items)" by (cases f2)
    from resume_exhausted [of n items st2] ok f eq st show ?thesis by auto
  qed
  from top blk show ?thesis by blast
qed

theorem unterminated_blocks_are_returned_witness:
  "parse (map Inr [\<lparr>name = ''BEGIN'', params = [], val = ''A''\<rparr>,
                   \<lparr>name = ''BEGIN'', params = [], val = ''B''\<rparr>,
                   \<lparr>name = ''END'', params = [], val = ''B''\<rparr>])
     = Inr [Container ''A'' [Container ''B'' []]]
   \<and> Container_parse ''A''
        (map Inr [\<lparr>name = ''SUMMARY'', params = [], val = ''x''\<rparr>,
                  \<lparr>name = ''BEGIN'', params = [], val = ''B''\<rparr>,
                  \<lparr>name = ''END'', params = [], val = ''B''\<rparr>,
                  \<lparr>name = ''BEGIN'', params = [], val = ''C''\<rparr>])
     = Inr (Container ''A''
              [Line \<lparr>name = ''SUMMARY'', params = [], val = ''x''\<rparr>,
               Container ''B'' [], Container ''C'' []], [])"
proof -
  have a: "scan [] [] [\<lparr>name = ''BEGIN'', params = [], val = ''A''\<rparr>,
                   \<lparr>name = ''BEGIN'', params = [], val = ''B''\<rparr>,
                   \<lparr>name = ''END'', params = [], val = ''B''\<rparr>]
           = Some ([(''A'', [Container ''B'' []])], [])"
    by simp
  have b: "scan [(''A'', [])] []
             [\<lparr>name = ''SUMMARY'', params = [], val = ''x''\<rparr>,
              \<lparr>name = ''BEGIN'', params = [], val = ''B''\<rparr>,
              \<lparr>name = ''END'', params = [], val = ''B''\<rparr>,
              \<lparr>name = ''BEGIN'', params = [], val = ''C''\<rparr>]
           = Some ([(''C'', []),
                    (''A'', [Line \<lparr>name = ''SUMMARY'', params = [], val = ''x''\<rparr>,
                             Container ''B'' []])], [])"
    by simp
  from unterminated_blocks_are_returned
         [of "[\<lparr>name = ''BEGIN'', params = [], val = ''A''\<rparr>,
               \<lparr>name = ''BEGIN'', params = [], val = ''B''\<rparr>,
               \<lparr>name = ''END'', params = [], val = ''B''\<rparr>]"
             "[(''A'', [Container ''B'' []])]" "[]"] a
  have 1: "parse (map Inr [\<lparr>name = ''BEGIN'', params = [], val = ''A''\<rparr>,
                   \<lparr>name = ''BEGIN'', params = [], val = ''B''\<rparr>,
                   \<lparr>name = ''END'', params = [], val = ''B''\<rparr>])
     = Inr [Container ''A'' [Container ''B'' []]]"
    by simp
  from unterminated_blocks_are_returned
         [of "[\<lparr>name = ''SUMMARY'', params = [], val = ''x''\<rparr>,
               \<lparr>name = ''BEGIN'', params = [], val = ''B''\<rparr>,
               \<lparr>name = ''END'', params = [], val = ''B''\<rparr>,
               \<lparr>name = ''BEGIN'', params = [], val = ''C''\<rparr>]"
             "[(''C'', []),
               (''A'', [Line \<lparr>name = ''SUMMARY'', params = [], val = ''x''\<rparr>,
                        Container ''B'' []])]" "[]" "''A''"] b
  have 2: "Container_parse ''A''
        (map Inr [\<lparr>name = ''SUMMARY'', params = [], val = ''x''\<rparr>,
                  \<lparr>name = ''BEGIN'', params = [], val = ''B''\<rparr>,
                  \<lparr>name = ''END'', params = [], val = ''B''\<rparr>,
                  \<lparr>name = ''BEGIN'', params = [], val = ''C''\<rparr>])
     = Inr (Container ''A''
              [Line \<lparr>name = ''SUMMARY'', params = [], val = ''x''\<rparr>,
               Container ''B'' [], Container ''C'' []], [])"
    by simp
  show ?thesis by (rule conjI [OF 1 2])
qed

text \<open>
  Claim C3: inside a block named \<open>nm\<close>, after any tokens \<open>pre\<close> (plain tokens and nested
  blocks, complete or still open) that leave the block \<open>n\<close> as the innermost open one,
  a token named \<open>END\<close> whose value differs from \<open>n\<close> makes \<open>Container.parse\<close> fail with
  a \<open>ParseError\<close> whose message gives the expected name \<open>n\<close> and the name found. When
  the block of the call itself is the innermost open one (every nested block before the
  \<open>END\<close> is complete; then \<open>n\<close> is \<open>nm\<close>), the loop of the call is the one that meets the
  \<open>END\<close>: a value equal to \<open>nm\<close> ends the block, the container with the children read
  is returned and the tokens after the \<open>END\<close> are left to the caller. A nested block is
  the block of its own call of \<open>Container.parse\<close>.
\<close>

theorem Container_parse_END:
  assumes "scan [(nm, [])] [] pre = Some ((n, items) # st, [])" and "name e = ''END''"
  shows "(val e \<noteq> n \<longrightarrow>
            Container_parse nm (map Inr pre @ Inr e # rest) =
              Inl (ParseError (Some (''Expected END:'' @ n @ '', got END:'' @ val e))))
       \<and> (val e = n \<and> st = [] \<longrightarrow>
            n = nm \<and> Container_parse nm (map Inr pre @ Inr e # rest) = Inr (Container nm items, rest))"
proof -
  have ok0: "frames_ok [(nm, [])]" by (simp add: frames_ok_def)
  from resume_scan [OF assms(1) ok0, of "Inr e # rest"]
  have eq: "Container_parse nm (map Inr pre @ Inr e # rest) = resume (n, items) st (Inr e # rest)"
    and ok: "frames_ok ((n, items) # st)"
    and bottom: "fst (last ((n, items) # st)) = nm"
    by (simp_all add: Container_parse_def)
  from ok have it: "list_all is_item items" by (simp add: frames_ok_Cons)
  have 1: "val e \<noteq> n \<longrightarrow>
            Container_parse nm (map Inr pre @ Inr e # rest) =
              Inl (ParseError (Some (''Expected END:'' @ n @ '', got END:'' @ val e)))"
    using eq assms(2) by (simp add: resume_END_mismatch)
  have 2: "val e = n \<and> st = [] \<longrightarrow>
            n = nm \<and> Container_parse nm (map Inr pre @ Inr e # rest) = Inr (Container nm items, rest)"
    using eq assms(2) it bottom by (auto simp: Container_init_ok)
  show ?thesis by (rule conjI [OF 1 2])
qed

theorem Container_parse_END_witness:
  "Container_parse ''VCALENDAR''
     (map Inr [\<lparr>name = ''BEGIN'', params = [], val = ''VEVENT''\<rparr>,
               \<lparr>name = ''SUMMARY'', params = [], val = ''x''\<rparr>,
               \<lparr>name = ''END'', params = [], val = ''VEVENT''\<rparr>]
        @ Inr \<lparr>name = ''END'', params = [], val = ''VCALENDAR''\<rparr>
        # [Inr \<lparr>name = ''A'', params = [], val = ''b''\<rparr>]) =
     Inr (Container ''VCALENDAR''
            [Container ''VEVENT'' [Line \<lparr>name = ''SUMMARY'', params = [], val = ''x''\<rparr>]],
          [Inr \<lparr>name = ''A'', params = [], val = ''b''\<rparr>])
   \<and> Container_parse ''VCALENDAR''
     (map Inr [\<lparr>name = ''BEGIN'', params = [], val = ''VEVENT''\<rparr>,
               \<lparr>name = ''SUMMARY'', params = [], val = ''x''\<rparr>,
               \<lparr>name = ''END'', params = [], val = ''VEVENT''\<rparr>]
        @ Inr \<lparr>name = ''END'', params = [], val = ''VTODO''\<rparr> # []) =
     Inl (ParseError (Some ''Expected END:VCALENDAR, got END:VTODO''))
   \<and> Container_parse ''VCALENDAR''
     (map Inr [\<lparr>name = ''BEGIN'', params = [], val = ''VEVENT''\<rparr>,
               \<lparr>name = ''SUMMARY'', params = [], val = ''x''\<rparr>]
        @ Inr \<lparr>name = ''END'', params = [], val = ''VTODO''\<rparr> # []) =
     Inl (ParseError (Some ''Expected END:VEVENT, got END:VTODO''))"
proof -
  have closed: "scan [(''VCALENDAR'', [])] []
       [\<lparr>name = ''BEGIN'', params = [], val = ''VEVENT''\<rparr>,
        \<lparr>name = ''SUMMARY'', params = [], val = ''x''\<rparr>,
        \<lparr>name = ''END'', params = [], val = ''VEVENT''\<rparr>]
     = Some ((''VCALENDAR'',
               [Container ''VEVENT'' [Line \<lparr>name = ''SUMMARY'', params = [], val = ''x''\<rparr>]])
             # [], [])"
    by simp
  have inner: "scan [(''VCALENDAR'', [])] []
       [\<lparr>name = ''BEGIN'', params = [], val = ''VEVENT''\<rparr>,
        \<lparr>name = ''SUMMARY'', params = [], val = ''x''\<rparr>]
     = Some ((''VEVENT'', [Line \<lparr>name = ''SUMMARY'', params = [], val = ''x''\<rparr>])
             # [(''VCALENDAR'', [])], [])"
    by simp
  have e1: "name \<lparr>name = ''END'', params = [], val = ''VCALENDAR''\<rparr> = ''END''" by simp
  have e2: "name \<lparr>name = ''END'', params = [], val = ''VTODO''\<rparr> = ''END''" by simp
  from Container_parse_END [OF closed e1, of "[Inr \<lparr>name = ''A'', params = [], val = ''b''\<rparr>]"]
  have 1: "Container_parse ''VCALENDAR''
     (map Inr [\<lparr>name = ''BEGIN'', params = [], val = ''VEVENT''\<rparr>,
               \<lparr>name = ''SUMMARY'', params = [], val = ''x''\<rparr>,
               \<lparr>name = ''END'', params = [], val = ''VEVENT''\<rparr>]
        @ Inr \<lparr>name = ''END'', params = [], val = ''VCALENDAR''\<rparr>
        # [Inr \<lparr>name = ''A'', params = [], val = ''b''\<rparr>]) =
     Inr (Container ''VCALENDAR''
            [Container ''VEVENT'' [Line \<lparr>name = ''SUMMARY'', params = [], val = ''x''\<rparr>]],
          [Inr \<lparr>name = ''A'', params = [], val = ''b''\<rparr>])"
    by simp
  from Container_parse_END [OF closed e2, of "[]"]
  have 2: "Container_parse ''VCALENDAR''
     (map Inr [\<lparr>name = ''BEGIN'', params = [], val = ''VEVENT''\<rparr>,
               \<lparr>name = ''SUMMARY'', params = [], val = ''x''\<rparr>,
               \<lparr>name = ''END'', params = [], val = ''VEVENT''\<rparr>]
        @ Inr \<lparr>name = ''END'', params = [], val = ''VTODO''\<rparr> # []) =
     Inl (ParseError (Some ''Expected END:VCALENDAR, got END:VTODO''))"
    by simp
  from Container_parse_END [OF inner e2, of "[]"]
  have 3: "Container_parse ''VCALENDAR''
     (map Inr [\<lparr>name = ''BEGIN'', params = [], val = ''VEVENT''\<rparr>,
               \<lparr>name = ''SUMMARY'', params = [], val = ''x''\<rparr>]
        @ Inr \<lparr>name = ''END'', params = [], val = ''VTODO''\<rparr> # []) =
     Inl (ParseError (Some ''Expected END:VEVENT, got END:VTODO''))"
    by simp
  from 1 2 3 show ?thesis by (intro conjI)
qed

section \<open>Equality of containers\<close>

lemma list_eq_list_all2: "list_eq xs ys = list_all2 py_eq xs ys"
proof (induction xs arbitrary: ys)
  case Nil
  then show ?case by (cases ys) simp_all
next
  case (Cons x xs)
  then show ?case by (cases ys) simp_all
qed

text \<open>
  Claim C2 as stated: two containers are equal if and only if they have the same name
  and the same ordered children; two containers with equal children and different names
  are unequal. The code compares the children only: \<open>Container\<close> inherits \<open>__eq__\<close> from
  \<open>list\<close>. The containers \<open>VEVENT\<close> and \<open>VTODO\<close> below have the same child and are equal.
\<close>

theorem Container_eq_ignores_name:
  "py_eq (Container ''VEVENT'' [Line \<lparr>name = ''SUMMARY'', params = [], val = ''x''\<rparr>])
         (Container ''VTODO'' [Line \<lparr>name = ''SUMMARY'', params = [], val = ''x''\<rparr>])
   \<and> ''VEVENT'' \<noteq> ''VTODO''"
  by (simp add: dict_eq_def)

text \<open>
  Claim C2, amended: two containers are equal if and only if they have the same ordered
  children (as many children, pairwise equal in order, compared with \<open>==\<close>, so
  recursively for children that are containers); the names are not compared.
\<close>

theorem Container_eq_children:
  "py_eq (Container n xs) (Container m ys) = list_all2 py_eq xs ys"
  by (simp add: list_eq_list_all2)

section \<open>Properties of the line unfolder\<close>

lemma in_set_dropWhile: "x \<in> set xs \<Longrightarrow> \<not> P x \<Longrightarrow> x \<in> set (dropWhile P xs)"
  by (induction xs) auto

lemma strip_cr_keeps: "c \<in> set s \<Longrightarrow> c \<noteq> CHR 0x0D \<Longrightarrow> c \<in> set (strip_cr s)"
  by (simp add: strip_cr_def in_set_dropWhile)

lemma isspace_CR: "isspace (CHR 0x0D)"
  by (simp add: isspace_def)

lemma strip_cr_nonempty: "\<not> blank line \<Longrightarrow> strip_cr line \<noteq> []"
proof -
  assume "\<not> blank line"
  then obtain c where c: "c \<in> set line" "\<not> isspace c"
    by (auto simp: blank_def list_all_iff)
  then have "c \<noteq> CHR 0x0D" using isspace_CR by auto
  with c(1) have "c \<in> set (strip_cr line)" by (rule strip_cr_keeps)
  then show ?thesis by auto
qed

lemma unfold_loop_started:
  assumes "list_all (\<lambda>l. \<not> starts_with_space_or_tab l) ls" and "cur \<noteq> []"
  shows "unfold_loop cur (map PyStr ls) =
         Inr cur # map (\<lambda>l. Inr (strip_cr l)) (filter (\<lambda>l. \<not> blank l) ls)"
  using assms
proof (induction ls arbitrary: cur)
  case Nil
  then show ?case by simp
next
  case (Cons l ls)
  show ?case
  proof (cases "blank l")
    case True
    with Cons show ?thesis by simp
  next
    case False
    then have ne: "strip_cr l \<noteq> []" by (rule strip_cr_nonempty)
    from False have "l \<noteq> []" by (auto simp: blank_def)
    with Cons.prems(1) have "hd l \<noteq> CHR '' ''" "hd l \<noteq> CHR 0x09"
      by (auto simp: starts_with_space_or_tab_def split: list.splits)
    with False Cons.prems Cons.IH [OF _ ne] show ?thesis by simp
  qed
qed

lemma unfold_loop_fresh:
  assumes "list_all (\<lambda>l. \<not> starts_with_space_or_tab l) ls"
  shows "unfold_loop [] (map PyStr ls) =
         map (\<lambda>l. Inr (strip_cr l)) (filter (\<lambda>l. \<not> blank l) ls)"
  using assms
proof (induction ls)
  case Nil
  then show ?case by simp
next
  case (Cons l ls)
  show ?case
  proof (cases "blank l")
    case True
    with Cons show ?thesis by simp
  next
    case False
    then have ne: "strip_cr l \<noteq> []" by (rule strip_cr_nonempty)
    from Cons.prems have "list_all (\<lambda>l. \<not> starts_with_space_or_tab l) ls" by simp
    from unfold_loop_started [OF this ne] False show ?thesis by simp
  qed
qed

text \<open>
  Claim C6 as stated: when no line starts with a space or a tab, the unfolder emits the
  non-blank lines, each with its trailing carriage return stripped. The code calls
  \<open>line.strip('\r')\<close>, which also strips the carriage returns at the start of a line:
  the line \<open>\rFOO\<close> is emitted as \<open>FOO\<close>, where the claim keeps it as it is.
\<close>

theorem unfold_lines_strips_leading_cr:
  "\<not> starts_with_space_or_tab [CHR 0x0D, CHR ''F'', CHR ''O'', CHR ''O'']
   \<and> unfold_lines (PyList [PyStr [CHR 0x0D, CHR ''F'', CHR ''O'', CHR ''O'']]) = [Inr ''FOO'']
   \<and> map (\<lambda>l. Inr (strip_trailing_cr l))
        (filter (\<lambda>l. \<not> blank l) [[CHR 0x0D, CHR ''F'', CHR ''O'', CHR ''O'']])
      = [Inr [CHR 0x0D, CHR ''F'', CHR ''O'', CHR ''O'']]
   \<and> unfold_lines (PyList [PyStr [CHR 0x0D, CHR ''F'', CHR ''O'', CHR ''O'']])
      \<noteq> map (\<lambda>l. Inr (strip_trailing_cr l))
          (filter (\<lambda>l. \<not> blank l) [[CHR 0x0D, CHR ''F'', CHR ''O'', CHR ''O'']])"
  by (simp add: unfold_lines_def blank_def isspace_def strip_cr_def strip_trailing_cr_def
      starts_with_space_or_tab_def)

text \<open>
  Claim C6, amended: for every finite sequence of lines in which no line starts with a
  space or a tab, the unfolder emits exactly the non-blank lines, in order, each with the
  carriage returns at its start and at its end stripped (\<open>line.strip('\r')\<close>); and
  unfolding \<open>["FOO:BAR", " BAZ"]\<close> yields the single logical line \<open>FOO:BARBAZ\<close>.
\<close>

theorem unfold_lines_without_continuation:
  "(list_all (\<lambda>l. \<not> starts_with_space_or_tab l) ls \<longrightarrow>
      unfold_lines (PyList (map PyStr ls)) =
        map (\<lambda>l. Inr (strip_cr l)) (filter (\<lambda>l. \<not> blank l) ls))
   \<and> unfold_lines (PyList [PyStr ''FOO:BAR'', PyStr '' BAZ'']) = [Inr ''FOO:BARBAZ'']"
proof -
  have "unfold_lines (PyList [PyStr ''FOO:BAR'', PyStr '' BAZ'']) = [Inr ''FOO:BARBAZ'']"
    by (simp add: unfold_lines_def blank_def isspace_def strip_cr_def)
  moreover have "list_all (\<lambda>l. \<not> starts_with_space_or_tab l) ls \<longrightarrow>
      unfold_lines (PyList (map PyStr ls)) =
        map (\<lambda>l. Inr (strip_cr l)) (filter (\<lambda>l. \<not> blank l) ls)"
    by (simp add: unfold_lines_def unfold_loop_fresh)
  ultimately show ?thesis by simp
qed

theorem unfold_lines_without_continuation_witness:
  "list_all (\<lambda>l. \<not> starts_with_space_or_tab l) [''A:1'' @ [CHR 0x0D], [], ''B:2'']
   \<and> unfold_lines (PyList (map PyStr [''A:1'' @ [CHR 0x0D], [], ''B:2'']))
       = [Inr ''A:1'', Inr ''B:2'']"
proof -
  have h: "list_all (\<lambda>l. \<not> starts_with_space_or_tab l) [''A:1'' @ [CHR 0x0D], [], ''B:2'']"
    by (simp add: starts_with_space_or_tab_def)
  from unfold_lines_without_continuation [of "[''A:1'' @ [CHR 0x0D], [], ''B:2'']"] h
  show ?thesis by (simp add: blank_def isspace_def strip_cr_def)
qed

text \<open>
  Claim C7: for an input that is not an iterable, the unfolder raises its input-shape
  error (\<open>ParseError\<close>) as the first thing it does: nothing is yielded before it, and the
  pipeline \<open>lines_to_container\<close> ends with this error whatever the grammar is, no line
  having been tokenized.
\<close>

theorem unfold_lines_not_iterable:
  assumes "\<not> is_iterable v"
  shows "unfold_lines v =
           [Inl (ParseError (Some ''Parameter `physical_lines` must be an iterable''))]
         \<and> lines_to_container GRAMMAR v =
           Inl (ParseError (Some ''Parameter `physical_lines` must be an iterable''))"
  using assms by (simp add: unfold_lines_def lines_to_container_def parse_def)

theorem unfold_lines_not_iterable_witness:
  "unfold_lines (PyInt 42) =
           [Inl (ParseError (Some ''Parameter `physical_lines` must be an iterable''))]
   \<and> unfold_lines (Line \<lparr>name = ''A'', params = [], val = ''b''\<rparr>) =
           [Inl (ParseError (Some ''Parameter `physical_lines` must be an iterable''))]"
proof -
  have a: "\<not> is_iterable (PyInt 42)" by simp
  have b: "\<not> is_iterable (Line \<lparr>name = ''A'', params = [], val = ''b''\<rparr>)" by simp
  from unfold_lines_not_iterable [OF a] unfold_lines_not_iterable [OF b]
  show ?thesis by simp
qed

text \<open>
  The whole pipeline on the examples of the spec: a block with one line, a mismatched
  \<open>END\<close>, a quoted parameter value, a line without colon and a line without name.
\<close>

lemma pipeline_example:
  "string_to_container (contentline_grammar spec_classes)
     (PyStr (''BEGIN:VEVENT'' @ [CHR 0x0D, CHR 0x0A] @ ''SUMMARY:x'' @ [CHR 0x0D, CHR 0x0A]
               @ ''END:VEVENT'' @ [CHR 0x0D, CHR 0x0A]))
   = Inr [Container ''VEVENT'' [Line \<lparr>name = ''SUMMARY'', params = [], val = ''x''\<rparr>]]"
  by code_simp

lemma mismatch_example:
  "string_to_container (contentline_grammar spec_classes)
     (PyStr (''BEGIN:VEVENT'' @ [CHR 0x0A] @ ''END:VTODO''))
   = Inl (ParseError (Some ''Expected END:VEVENT, got END:VTODO''))"
  by code_simp

lemma quoted_example:
  "ContentLine_parse (contentline_grammar spec_classes)
     (''dtend;TZID='' @ [CHR 0x22] @ ''UTC'' @ [CHR 0x22] @ '':20190107T000000'')
   = Inr \<lparr>name = ''DTEND'', params = [(''TZID'', [''UTC''])], val = ''20190107T000000''\<rparr>"
  by code_simp

lemma no_colon_example:
  "ContentLine_parse (contentline_grammar spec_classes) ''no colon here''
   = Inl (ParseError None)"
  by code_simp

lemma no_name_example:
  "ContentLine_parse (contentline_grammar spec_classes) '':x'' = Inl FailedParse"
  by code_simp

text \<open>
  Claim C10: for a value that is not a string, \<open>calendar_string_to_containers\<close> raises
  \<open>TypeError\<close>, whatever the grammar is and without calling \<open>string_to_container\<close>
  (which would raise \<open>AttributeError\<close> on such a value); for a string it returns what
  \<open>string_to_container\<close> returns.
\<close>

theorem calendar_string_to_containers_type_check:
  "(\<not> is_str v \<longrightarrow>
      calendar_string_to_containers GRAMMAR v = Inl (TypeError ''Expecting a string''))
   \<and> calendar_string_to_containers GRAMMAR (PyStr txt) = string_to_container GRAMMAR (PyStr txt)"
  by (simp add: calendar_string_to_containers_def)

theorem calendar_string_to_containers_type_check_witness:
  "calendar_string_to_containers (contentline_grammar spec_classes)
      (PyList [PyStr ''BEGIN:VEVENT'']) = Inl (TypeError ''Expecting a string'')
   \<and> calendar_string_to_containers (contentline_grammar spec_classes)
      (PyStr (''BEGIN:VEVENT'' @ [CHR 0x0D, CHR 0x0A] @ ''SUMMARY:x'' @ [CHR 0x0D, CHR 0x0A]
               @ ''END:VEVENT'' @ [CHR 0x0D, CHR 0x0A]))
     = Inr [Container ''VEVENT'' [Line \<lparr>name = ''SUMMARY'', params = [], val = ''x''\<rparr>]]"
proof -
  have n: "\<not> is_str (PyList [PyStr ''BEGIN:VEVENT''])" by simp
  from calendar_string_to_containers_type_check
    [of "PyList [PyStr ''BEGIN:VEVENT'']" "contentline_grammar spec_classes"
        "''BEGIN:VEVENT'' @ [CHR 0x0D, CHR 0x0A] @ ''SUMMARY:x'' @ [CHR 0x0D, CHR 0x0A]
               @ ''END:VEVENT'' @ [CHR 0x0D, CHR 0x0A]"] n
  show ?thesis by (simp only: pipeline_example simp_thms)
qed

section \<open>The invariant of containers\<close>

lemma check_items_single:
  "check_items [v] = (if is_item v then Inr () else Inl (TypeError ''item''))"
  by (simp add: check_items_def check_is_instance_def)

lemma Container_append_eq:
  "Container_append self v =
     (if is_item v then (Inr (), (fst self, snd self @ [v]))
      else (Inl (TypeError ''item''), self))"
  by (simp add: Container_append_def check_items_single)

lemma Container_insert_eq:
  "Container_insert self index v =
     (if is_item v
      then (Inr (), (fst self,
              take (nat (if index < 0 then max 0 (index + int (length (snd self)))
                         else min index (int (length (snd self))))) (snd self) @ [v] @
              drop (nat (if index < 0 then max 0 (index + int (length (snd self)))
                         else min index (int (length (snd self))))) (snd self)))
      else (Inl (TypeError ''item''), self))"
  by (simp add: Container_insert_def check_items_single Let_def)

lemma Container_setitem_eq:
  "Container_setitem self index v =
     (if \<not> is_item v then (Inl (TypeError ''item''), self)
      else if 0 \<le> (if index < 0 then index + int (length (snd self)) else index)
            \<and> (if index < 0 then index + int (length (snd self)) else index)
                < int (length (snd self))
      then (Inr (), (fst self,
              (snd self)[nat (if index < 0 then index + int (length (snd self)) else index) := v]))
      else (Inl IndexError, self))"
  by (simp add: Container_setitem_def check_items_single Let_def)

lemma Container_extend_ok:
  "py_iter values = Inr vs \<Longrightarrow> list_all is_item vs \<Longrightarrow>
   Container_extend self values = (Inr (), (fst self, snd self @ vs))"
  by (simp add: Container_extend_def check_items_ok)

lemma Container_extend_rejects:
  "py_iter values = Inr vs \<Longrightarrow> \<not> list_all is_item vs \<Longrightarrow>
   \<exists>msg. Container_extend self values = (Inl (TypeError msg), self)"
  using check_items_bad [of vs] by (auto simp: Container_extend_def)

lemma Container_extend_unchanged:
  "fst (Container_extend self values) = Inl e \<Longrightarrow> snd (Container_extend self values) = self"
  by (auto simp: Container_extend_def split: sum.splits)

lemma list_all_update:
  "list_all P xs \<Longrightarrow> P v \<Longrightarrow> list_all P (xs[i := v])"
  by (metis list_all_iff set_update_subset_insert subset_code(1) insert_iff)

lemma items_ok_setitem: "items_ok self \<Longrightarrow> items_ok (snd (Container_setitem self index v))"
  by (simp add: Container_setitem_eq items_ok_def list_all_update)

lemma list_all_take_drop: "list_all P xs \<Longrightarrow> list_all P (take n xs) \<and> list_all P (drop n xs)"
  by (metis append_take_drop_id list_all_append)

lemma items_ok_insert: "items_ok self \<Longrightarrow> items_ok (snd (Container_insert self index v))"
  by (simp add: Container_insert_eq items_ok_def list_all_take_drop)

lemma items_ok_append: "items_ok self \<Longrightarrow> items_ok (snd (Container_append self v))"
  by (simp add: Container_append_eq items_ok_def)

lemma items_ok_extend:
  assumes "items_ok self"
  shows "items_ok (snd (Container_extend self values))"
proof (cases "py_iter values")
  case (Inl e)
  with assms show ?thesis by (simp add: Container_extend_def)
next
  case (Inr vs)
  show ?thesis
  proof (cases "list_all is_item vs")
    case True
    from Container_extend_ok [OF Inr True, of self] assms True show ?thesis
      by (simp add: items_ok_def)
  next
    case False
    from Container_extend_rejects [OF Inr False, of self] assms show ?thesis by auto
  qed
qed

lemma Container_add_eq:
  assumes "items_ok self"
  shows "Container_add self values =
     (case Container_extend self values of
        (Inl e, c) \<Rightarrow> Inl e
      | (Inr u, c) \<Rightarrow> Inr c)"
proof -
  have "py_iter (Container (fst self) (snd self)) = Inr (snd self)" by simp
  from Container_extend_ok [OF this, of "(fst self, [])"] assms
  have 1: "Container_extend (fst self, []) (Container (fst self) (snd self)) = (Inr (), self)"
    by (simp add: items_ok_def)
  have 2: "Container_init (fst self) [] = Inr (Container (fst self) [])"
    by (simp add: Container_init_ok)
  show ?thesis by (simp add: Container_add_def 1 2)
qed

lemma items_ok_add:
  "items_ok self \<Longrightarrow> Container_add self values = Inr c \<Longrightarrow> items_ok c"
  using items_ok_extend [of self "values"]
  by (auto simp: Container_add_eq split: prod.splits sum.splits)

lemma Container_add_rejects:
  "items_ok self \<Longrightarrow> py_iter values = Inr vs \<Longrightarrow> \<not> list_all is_item vs \<Longrightarrow>
   \<exists>msg. Container_add self values = Inl (TypeError msg)"
  using Container_extend_rejects [of "values" vs self]
  by (auto simp: Container_add_eq)

lemma Container_init_rejects:
  "\<not> list_all is_item items \<Longrightarrow> \<exists>msg. Container_init nm items = Inl (TypeError msg)"
  using check_items_bad [of items] by (auto simp: Container_init_def)

lemma Container_mutators_unchanged:
  "(fst (Container_setitem self index v) = Inl e \<longrightarrow> snd (Container_setitem self index v) = self)
   \<and> (fst (Container_insert self index v) = Inl e \<longrightarrow> snd (Container_insert self index v) = self)
   \<and> (fst (Container_append self v) = Inl e \<longrightarrow> snd (Container_append self v) = self)
   \<and> (fst (Container_extend self values) = Inl e \<longrightarrow> snd (Container_extend self values) = self)"
  using Container_extend_unchanged [of self "values" e]
  by (simp add: Container_setitem_eq Container_insert_eq Container_append_eq)

text \<open>
  Claim C4: every element of a container is a content line or a container, and
  construction, index assignment, \<open>insert\<close>, \<open>append\<close>, \<open>extend\<close>, \<open>+=\<close> and \<open>+\<close> keep it
  so: the constructor accepts exactly the item lists that satisfy it; on a container that
  satisfies it each of the mutating operations leaves one that satisfies it; a value that
  is neither a content line nor a container is rejected with \<open>TypeError\<close> (appending a
  plain string fails), and an operation that fails leaves the container as it was.
  An accepted value is really stored (\<open>append\<close> adds it at the end).
\<close>

theorem Container_items_invariant:
  assumes "items_ok self"
  shows "(list_all is_item items \<longrightarrow> Container_init nm items = Inr (Container nm items))
    \<and> (\<not> list_all is_item items \<longrightarrow> (\<exists>msg. Container_init nm items = Inl (TypeError msg)))
    \<and> items_ok (snd (Container_setitem self index v))
    \<and> items_ok (snd (Container_insert self index v))
    \<and> items_ok (snd (Container_append self v))
    \<and> items_ok (snd (Container_extend self vals))
    \<and> items_ok (snd (Container_iadd self vals))
    \<and> (\<forall>c. Container_add self vals = Inr c \<longrightarrow> items_ok c)
    \<and> (\<not> is_item v \<longrightarrow>
          Container_setitem self index v = (Inl (TypeError ''item''), self)
        \<and> Container_insert self index v = (Inl (TypeError ''item''), self)
        \<and> Container_append self v = (Inl (TypeError ''item''), self))
    \<and> (\<forall>vs. py_iter vals = Inr vs \<and> \<not> list_all is_item vs \<longrightarrow>
          (\<exists>msg. Container_extend self vals = (Inl (TypeError msg), self))
        \<and> (\<exists>msg. Container_iadd self vals = (Inl (TypeError msg), self))
        \<and> (\<exists>msg. Container_add self vals = Inl (TypeError msg)))
    \<and> (\<forall>e. (fst (Container_setitem self index v) = Inl e
                \<longrightarrow> snd (Container_setitem self index v) = self)
           \<and> (fst (Container_insert self index v) = Inl e
                \<longrightarrow> snd (Container_insert self index v) = self)
           \<and> (fst (Container_append self v) = Inl e
                \<longrightarrow> snd (Container_append self v) = self)
           \<and> (fst (Container_extend self vals) = Inl e
                \<longrightarrow> snd (Container_extend self vals) = self)
           \<and> (fst (Container_iadd self vals) = Inl e
                \<longrightarrow> snd (Container_iadd self vals) = self))
    \<and> (is_item v \<longrightarrow> Container_append self v = (Inr (), (fst self, snd self @ [v])))"
proof -
  note io = assms
  have c1: "list_all is_item items \<longrightarrow> Container_init nm items = Inr (Container nm items)"
    by (simp add: Container_init_ok)
  have c2: "\<not> list_all is_item items \<longrightarrow> (\<exists>msg. Container_init nm items = Inl (TypeError msg))"
    by (simp add: Container_init_rejects)
  have c3: "items_ok (snd (Container_setitem self index v))"
    using io by (rule items_ok_setitem)
  have c4: "items_ok (snd (Container_insert self index v))"
    using io by (rule items_ok_insert)
  have c5: "items_ok (snd (Container_append self v))"
    using io by (rule items_ok_append)
  have c6: "items_ok (snd (Container_extend self vals))"
    using io by (rule items_ok_extend)
  have c7: "items_ok (snd (Container_iadd self vals))"
    using c6 by (simp add: Container_iadd_def)
  have c8: "\<forall>c. Container_add self vals = Inr c \<longrightarrow> items_ok c"
    using items_ok_add [OF io] by blast
  have c9: "\<not> is_item v \<longrightarrow>
          Container_setitem self index v = (Inl (TypeError ''item''), self)
        \<and> Container_insert self index v = (Inl (TypeError ''item''), self)
        \<and> Container_append self v = (Inl (TypeError ''item''), self)"
    by (simp add: Container_setitem_eq Container_insert_eq Container_append_eq)
  have c10: "\<forall>vs. py_iter vals = Inr vs \<and> \<not> list_all is_item vs \<longrightarrow>
          (\<exists>msg. Container_extend self vals = (Inl (TypeError msg), self))
        \<and> (\<exists>msg. Container_iadd self vals = (Inl (TypeError msg), self))
        \<and> (\<exists>msg. Container_add self vals = Inl (TypeError msg))"
    using Container_extend_rejects [of vals _ self] Container_add_rejects [OF io, of vals]
    by (simp add: Container_iadd_def)
  have c11: "\<forall>e. (fst (Container_setitem self index v) = Inl e
                \<longrightarrow> snd (Container_setitem self index v) = self)
           \<and> (fst (Container_insert self index v) = Inl e
                \<longrightarrow> snd (Container_insert self index v) = self)
           \<and> (fst (Container_append self v) = Inl e
                \<longrightarrow> snd (Container_append self v) = self)
           \<and> (fst (Container_extend self vals) = Inl e
                \<longrightarrow> snd (Container_extend self vals) = self)
           \<and> (fst (Container_iadd self vals) = Inl e
                \<longrightarrow> snd (Container_iadd self vals) = self)"
    using Container_mutators_unchanged [of self index v _ vals]
    by (simp add: Container_iadd_def)
  have c12: "is_item v \<longrightarrow> Container_append self v = (Inr (), (fst self, snd self @ [v]))"
    by (simp add: Container_append_eq)
  from c1 c2 c3 c4 c5 c6 c7 c8 c9 c10 c11 c12 show ?thesis by blast
qed

theorem Container_items_invariant_witness:
  "items_ok (''VEVENT'', [Line \<lparr>name = ''SUMMARY'', params = [], val = ''x''\<rparr>])
   \<and> Container_append (''VEVENT'', [Line \<lparr>name = ''SUMMARY'', params = [], val = ''x''\<rparr>])
        (PyStr ''SUMMARY:y'')
      = (Inl (TypeError ''item''),
         (''VEVENT'', [Line \<lparr>name = ''SUMMARY'', params = [], val = ''x''\<rparr>]))
   \<and> items_ok (snd (Container_setitem
        (''VEVENT'', [Line \<lparr>name = ''SUMMARY'', params = [], val = ''x''\<rparr>]) (- 1)
        (PyStr ''SUMMARY:y'')))
   \<and> items_ok (snd (Container_extend
        (''VEVENT'', [Line \<lparr>name = ''SUMMARY'', params = [], val = ''x''\<rparr>])
        (PyList [Container ''VALARM'' []])))"
proof -
  have h: "items_ok (''VEVENT'', [Line \<lparr>name = ''SUMMARY'', params = [], val = ''x''\<rparr>])"
    by (simp add: items_ok_def)
  have n: "\<not> is_item (PyStr ''SUMMARY:y'')" by simp
  from Container_items_invariant [OF h, where v = "PyStr ''SUMMARY:y''" and index = "- 1"
      and vals = "PyList [Container ''VALARM'' []]"] h n
  show ?thesis by simp
qed

section \<open>Properties of the interval queries\<close>

lemma sorted_timeline: "sorted (map start_of (timeline recs))"
  by (simp add: timeline_def)

lemma mset_timeline: "mset (timeline recs) = filter_mset has_start (mset recs)"
  by (simp add: timeline_def)

text \<open>
  The model agrees with the tests of the repository: \<open>test_included\<close> expects the events
  3 and 0, in this order, for the window from 2013-10-10 to 2017-10-10;
  \<open>test_overlapping\<close> the events 0 and 1 for the window from 2011-10-10 to 2015-10-10;
  \<open>test_on\<close> the events 4 and 0 on 2015-10-10 at noon, and \<open>test_on_strict\<close> the event 0
  alone.
\<close>

lemma test_included:
  "map label (included 1381363200 1507593600 test_events) = [3, 0]"
  by (simp add: included_def timeline_def test_events_def has_start_def start_of_def
      end_or_start_def)

lemma test_overlapping:
  "map label (overlapping 1318204800 1444435200 test_overlapping_events) = [0, 1]"
  by (simp add: overlapping_def timeline_def test_overlapping_events_def has_start_def
      start_of_def end_or_start_def)

lemma test_on:
  "map label (on 1444478400 False test_events) = [4, 0]"
  by (simp add: on_def overlapping_def timeline_def test_events_def has_start_def start_of_def
      end_or_start_def day_start_def)

lemma test_on_strict:
  "map label (on 1444478400 True test_events) = [0]"
  by (simp add: on_def included_def timeline_def test_events_def has_start_def start_of_def
      end_or_start_def day_start_def)

text \<open>
  Claim C8: for every collection of records and every window, \<open>included\<close> returns, in
  start-ascending order, exactly the records that have a start, whose start is at or
  after \<open>b\<close> and whose end (or start, when they have no end) is at or before \<open>e\<close>: the
  result is sorted by start, and it holds each such record as many times as the
  collection does and nothing else. A record that overlaps the window without lying
  inside it fails one of the two comparisons and is not returned.
\<close>

theorem included_spec:
  "sorted (map start_of (included b e recs))
   \<and> mset (included b e recs) =
       filter_mset (\<lambda>r. has_start r \<and> b \<le> start_of r \<and> end_or_start r \<le> e) (mset recs)"
proof -
  have s: "sorted (map start_of (included b e recs))"
    unfolding included_def by (rule sorted_filter) (rule sorted_timeline)
  have m: "mset (included b e recs) =
       filter_mset (\<lambda>r. has_start r \<and> b \<le> start_of r \<and> end_or_start r \<le> e) (mset recs)"
    by (simp add: included_def mset_timeline filter_filter_mset conj_commute)
  from s m show ?thesis by simp
qed

text \<open>Records of equal start keep the order they have in the collection.\<close>

lemma included_stable:
  "included b e recs =
     sort_key start_of
       (filter (\<lambda>r. has_start r \<and> b \<le> start_of r \<and> end_or_start r \<le> e) recs)"
proof -
  have "included b e recs =
       sort_key start_of
         (filter (\<lambda>r. b \<le> start_of r \<and> end_or_start r \<le> e) (filter has_start recs))"
    unfolding included_def timeline_def by (rule filter_sort)
  then show ?thesis by (simp add: conj_commute)
qed

text \<open>
  Claim C9: a record that has no start is absent from the iteration of the timeline and
  from the result of every query: \<open>included\<close>, \<open>overlapping\<close> and \<open>on\<close>, strict or not.
\<close>

theorem no_start_not_queried:
  assumes "\<not> has_start r"
  shows "r \<notin> set (timeline recs) \<and> r \<notin> set (included b e recs)
       \<and> r \<notin> set (overlapping b e recs) \<and> r \<notin> set (on t strict recs)"
  using assms by (simp add: timeline_def included_def overlapping_def on_def)

theorem no_start_not_queried_witness:
  "\<lparr>r_start = None, r_end = Some 1444435200, label = 5\<rparr>
      \<notin> set (timeline (\<lparr>r_start = None, r_end = Some 1444435200, label = 5\<rparr> # test_events))
   \<and> \<lparr>r_start = None, r_end = Some 1444435200, label = 5\<rparr>
      \<notin> set (included 0 1602288000
            (\<lparr>r_start = None, r_end = Some 1444435200, label = 5\<rparr> # test_events))
   \<and> \<lparr>r_start = None, r_end = Some 1444435200, label = 5\<rparr>
      \<notin> set (overlapping 0 1602288000
            (\<lparr>r_start = None, r_end = Some 1444435200, label = 5\<rparr> # test_events))
   \<and> \<lparr>r_start = None, r_end = Some 1444435200, label = 5\<rparr>
      \<notin> set (on 1444435200 True
            (\<lparr>r_start = None, r_end = Some 1444435200, label = 5\<rparr> # test_events))"
proof -
  have h: "\<not> has_start \<lparr>r_start = None, r_end = Some 1444435200, label = 5\<rparr>"
    by (simp add: has_start_def)
  from no_start_not_queried [OF h] show ?thesis by blast
qed

section \<open>The round trip of a token\<close>

lemma parse_name_run:
  assumes "n \<noteq> []" "list_all (name_char g) n" "\<not> name_char g c"
  shows "parse_name g (n @ c # rest) = Some (n, c # rest)"
proof -
  have "\<forall>x\<in>set n. name_char g x" using assms(2) by (simp add: list_all_iff)
  then have "takeWhile (name_char g) (n @ c # rest) = n"
    and "dropWhile (name_char g) (n @ c # rest) = c # rest"
    using assms(3) by (simp_all add: takeWhile_append2 dropWhile_append2)
  then show ?thesis using assms(1) by (simp add: parse_name_def)
qed

lemma paramtext_run:
  assumes "list_all (safe_char g) v" "\<not> safe_char g c"
  shows "paramtext g (v @ c # rest) = (v, c # rest)"
proof -
  have "\<forall>x\<in>set v. safe_char g x" using assms(1) by (simp add: list_all_iff)
  then show ?thesis using assms(2)
    by (simp add: paramtext_def takeWhile_append2 dropWhile_append2)
qed

lemma parse_param_value_bare:
  assumes "list_all (safe_char g) v" "\<not> safe_char g c" "c \<noteq> CHR 0x22"
    and "\<not> safe_char g (CHR 0x22)"
  shows "parse_param_value g (v @ c # rest) = (v, c # rest)"
proof (cases v)
  case Nil
  with assms(3) paramtext_run [OF assms(1,2), of rest] show ?thesis
    by (simp add: parse_param_value_def)
next
  case (Cons x xs)
  with assms(1,4) have "x \<noteq> CHR 0x22" by auto
  with Cons paramtext_run [OF assms(1,2), of rest] show ?thesis
    by (simp add: parse_param_value_def)
qed

text \<open>The text of the values after the first: each preceded by a comma.\<close>

lemma join_Cons: "join '','' (v # vs) = v @ concat (map (\<lambda>w. CHR '','' # w) vs)"
  by (induction vs arbitrary: v) simp_all

lemma more_values_run:
  assumes "list_all (list_all (safe_char g)) vs" "delimiters_excluded g"
    and "c = CHR '';'' \<or> c = CHR '':''"
  shows "more_values g (concat (map (\<lambda>w. CHR '','' # w) vs) @ c # rest) = (vs, c # rest)"
  using assms(1)
proof (induction vs)
  case Nil
  from assms(3) show ?case by auto
next
  case (Cons v vs)
  have safe: "list_all (safe_char g) v" using Cons.prems by simp
  have ns: "\<not> safe_char g (CHR '','')" "\<not> safe_char g (CHR 0x22)"
    "\<not> safe_char g c"
    using assms(2,3) by (auto simp: delimiters_excluded_def)
  have cq: "c \<noteq> CHR 0x22" using assms(3) by auto
  show ?case
  proof (cases vs)
    case Nil
    from parse_param_value_bare [OF safe ns(3) cq ns(2), of rest] assms(3) Nil
    show ?thesis by auto
  next
    case (Cons w ws)
    have "parse_param_value g (v @ CHR '','' # (w @ concat (map (\<lambda>w. CHR '','' # w) ws) @ c # rest))
          = (v, CHR '','' # (w @ concat (map (\<lambda>w. CHR '','' # w) ws) @ c # rest))"
      by (rule parse_param_value_bare [OF safe ns(1) _ ns(2)]) simp
    moreover from Cons.IH Cons.prems Cons
    have "more_values g (CHR '','' # w @ concat (map (\<lambda>w. CHR '','' # w) ws) @ c # rest)
          = (w # ws, c # rest)" by simp
    ultimately show ?thesis using Cons by simp
  qed
qed


lemma parse_param_run:
  assumes "valid_param g (k, vs)" "delimiters_excluded g"
    and "c = CHR '';'' \<or> c = CHR '':''"
  shows "parse_param g (k @ CHR ''='' # join '','' vs @ c # rest)
         = Some (param_ast_of (k, vs), c # rest)"
proof -
  from assms(1) obtain v ws where vs: "vs = v # ws"
    by (cases vs) (auto simp: valid_param_def)
  from assms(1) vs have k: "k \<noteq> []" "list_all (name_char g) k"
    and v: "list_all (safe_char g) v" and ws: "list_all (list_all (safe_char g)) ws"
    by (auto simp: valid_param_def)
  have ne: "\<not> name_char g (CHR ''='')" "\<not> safe_char g (CHR 0x22)" "\<not> safe_char g (CHR '','')"
    "\<not> safe_char g c"
    using assms(2,3) by (auto simp: delimiters_excluded_def)
  have cq: "c \<noteq> CHR 0x22" using assms(3) by auto
  let ?tail = "concat (map (\<lambda>w. CHR '','' # w) ws) @ c # rest"
  have pn: "parse_name g (k @ CHR ''='' # (v @ ?tail)) = Some (k, CHR ''='' # (v @ ?tail))"
    by (rule parse_name_run [OF k ne(1)])
  have pv: "parse_param_value g (v @ ?tail) = (v, ?tail)"
  proof (cases ws)
    case Nil
    with parse_param_value_bare [OF v ne(4) cq ne(2), of rest] show ?thesis by simp
  next
    case (Cons w ws')
    have "parse_param_value g (v @ CHR '','' # (w @ concat (map (\<lambda>w. CHR '','' # w) ws') @ c # rest))
          = (v, CHR '','' # (w @ concat (map (\<lambda>w. CHR '','' # w) ws') @ c # rest))"
      by (rule parse_param_value_bare [OF v ne(3) _ ne(2)]) simp
    with Cons show ?thesis by simp
  qed
  have mv: "more_values g ?tail = (ws, c # rest)"
    by (rule more_values_run [OF ws assms(2,3)])
  show ?thesis
    using pn pv mv by (simp add: parse_param_def vs join_Cons param_ast_of_def)
qed

lemma params_str_head:
  "\<exists>c r. params_str ps @ CHR '':'' # rest = c # r \<and> (c = CHR '';'' \<or> c = CHR '':'')"
  by (cases ps) auto

lemma parse_params_run:
  assumes "list_all (valid_param g) ps" "delimiters_excluded g"
  shows "parse_params g (params_str ps @ CHR '':'' # rest)
         = (map param_ast_of ps, CHR '':'' # rest)"
  using assms(1)
proof (induction ps)
  case Nil
  then show ?case by simp
next
  case (Cons p ps)
  obtain k vs where p: "p = (k, vs)" by (cases p)
  from Cons.prems p have vp: "valid_param g (k, vs)" and rest: "list_all (valid_param g) ps"
    by simp_all
  from params_str_head [of ps rest] obtain c r where
    cr: "params_str ps @ CHR '':'' # rest = c # r" "c = CHR '';'' \<or> c = CHR '':''"
    by blast
  from parse_param_run [OF vp assms(2) cr(2), of r] cr(1)
  have "parse_param g (k @ CHR ''='' # join '','' vs @ params_str ps @ CHR '':'' # rest)
        = Some (param_ast_of (k, vs), params_str ps @ CHR '':'' # rest)"
    by simp
  with Cons.IH [OF rest] show ?case by (simp add: p)
qed

lemma dict_set_fresh: "k \<notin> fst ` set d \<Longrightarrow> dict_set d k v = d @ [(k, v)]"
  by (induction d) auto

lemma interpret_params_distinct:
  "distinct (map fst (acc @ ps)) \<Longrightarrow> interpret_params acc (map param_ast_of ps) = acc @ ps"
proof (induction ps arbitrary: acc)
  case Nil
  then show ?case by simp
next
  case (Cons p ps)
  from Cons.prems have fresh: "fst p \<notin> fst ` set acc" by auto
  from Cons.prems have "distinct (map fst ((acc @ [p]) @ ps))" by simp
  from Cons.IH [OF this] dict_set_fresh [OF fresh, of "snd p"] show ?case
    by (simp add: param_ast_of_def)
qed

text \<open>
  A token whose parameter values need no quoting comes back from the round trip as it
  is: the same name, the same parameters in the same order with their values in the
  same order, the same value. This holds for any character classes that exclude the
  delimiters.
\<close>

lemma roundtrip_of_unquoted_tokens:
  assumes "delimiters_excluded g" and "valid_token g T"
  shows "ContentLine_parse (contentline_grammar g) (ContentLine_str T) = Inr T"
proof -
  from assms(2) have nm: "name T \<noteq> []" "list_all (name_char g) (name T)"
    and up: "upper (name T) = name T"
    and dist: "distinct (map fst (params T))"
    and ps: "list_all (valid_param g) (params T)"
    and vc: "list_all (value_char g) (val T)"
    and nl: "CHR 0x0A \<notin> set (ContentLine_str T)" "CHR 0x0D \<notin> set (ContentLine_str T)"
    by (simp_all add: valid_token_def)
  from params_str_head [of "params T" "val T"] obtain c r where
    cr: "params_str (params T) @ CHR '':'' # val T = c # r" "c = CHR '';'' \<or> c = CHR '':''"
    by blast
  have "\<not> name_char g c" using cr(2) assms(1) by (auto simp: delimiters_excluded_def)
  from parse_name_run [OF nm this, of r] cr(1)
  have pn: "parse_name g (ContentLine_str T)
            = Some (name T, params_str (params T) @ CHR '':'' # val T)"
    by (simp add: ContentLine_str_def)
  have pp: "parse_params g (params_str (params T) @ CHR '':'' # val T)
            = (map param_ast_of (params T), CHR '':'' # val T)"
    by (rule parse_params_run [OF ps assms(1)])
  have gr: "contentline_grammar g (ContentLine_str T)
            = Inr \<lparr>a_name = name T, a_params = map param_ast_of (params T), a_value = val T\<rparr>"
    using pn pp vc by (simp add: contentline_grammar_def)
  have ip: "interpret_params [] (map param_ast_of (params T)) = params T"
    using interpret_params_distinct [of "[]" "params T"] dist by simp
  show ?thesis
    using nl gr ip up
    by (simp add: ContentLine_parse_def interpret_ast_def ContentLine_init_def)
qed

lemma roundtrip_example:
  "ContentLine_parse (contentline_grammar spec_classes)
     ''DTSTART;TZID=Europe/Brussels;X-A=1,2:20130802T200000''
   = Inr \<lparr>name = ''DTSTART'',
          params = [(''TZID'', [''Europe/Brussels'']), (''X-A'', [''1'', ''2''])],
          val = ''20130802T200000''\<rparr>"
proof -
  have d: "delimiters_excluded spec_classes"
    by (simp add: delimiters_excluded_def spec_classes_def)
  have v: "valid_token spec_classes
     \<lparr>name = ''DTSTART'',
      params = [(''TZID'', [''Europe/Brussels'']), (''X-A'', [''1'', ''2''])],
      val = ''20130802T200000''\<rparr>"
    by (simp add: valid_token_def valid_param_def spec_classes_def upper_def upper_char_def
        ContentLine_str_def)
  from roundtrip_of_unquoted_tokens [OF d v] show ?thesis
    by (simp add: ContentLine_str_def)
qed

text \<open>
  Claim C5: for every valid token \<open>T\<close>, tokenizing the textual form of \<open>T\<close> yields a
  token equal to \<open>T\<close>. The code does not do so for a token with a parameter value that
  holds a delimiter. The tokenizer yields such tokens from quoted values: the line
  \<open>A;B="x,y":v\<close> gives the token with the one value \<open>x,y\<close> for \<open>B\<close>. \<open>__str__\<close> joins
  the values as they are (its comment reads \<open>TODO ensure escaping?\<close>), so the textual
  form of this token is \<open>A;B=x,y:v\<close>, which tokenizes to the two values \<open>x\<close> and \<open>y\<close>:
  a token that is not equal to the first.
\<close>

theorem str_does_not_quote:
  "ContentLine_parse (contentline_grammar spec_classes)
     (''A;B='' @ [CHR 0x22] @ ''x,y'' @ [CHR 0x22] @ '':v'')
     = Inr \<lparr>name = ''A'', params = [(''B'', [''x,y''])], val = ''v''\<rparr>
   \<and> ContentLine_str \<lparr>name = ''A'', params = [(''B'', [''x,y''])], val = ''v''\<rparr>
     = ''A;B=x,y:v''
   \<and> ContentLine_parse (contentline_grammar spec_classes)
       (ContentLine_str \<lparr>name = ''A'', params = [(''B'', [''x,y''])], val = ''v''\<rparr>)
     = Inr \<lparr>name = ''A'', params = [(''B'', [''x'', ''y''])], val = ''v''\<rparr>
   \<and> \<not> py_eq (Line \<lparr>name = ''A'', params = [(''B'', [''x'', ''y''])], val = ''v''\<rparr>)
              (Line \<lparr>name = ''A'', params = [(''B'', [''x,y''])], val = ''v''\<rparr>)"
  by code_simp

end
